theory Spec2Isabelle
  imports Main "HOL-Library.AList" "HOL-Library.Sublist"
begin

section \<open>Strings and paths\<close>

text \<open>
  The script \<^verbatim>\<open>setupDoc.js\<close> scaffolds the documentation files of an Ember addon. It
  is a Node program: everything it does is a call of \<^verbatim>\<open>path\<close>, \<^verbatim>\<open>fs\<close>,
  \<^verbatim>\<open>console\<close> or \<^verbatim>\<open>JSON\<close>, and any of these calls may throw. The embedding
  below makes the file tree, the console and the thrown exception explicit.

  Text is a \<^typ>\<open>string\<close>: the bytes of the UTF-8 encoding of a JavaScript string,
  which are the bytes \<^verbatim>\<open>writeFileSync(p, s, 'utf8')\<close> stores for it and the console
  prints. A file holds bytes, any bytes. \<^verbatim>\<open>readFileSync(p, 'utf8')\<close> decodes them,
  so the text it returns is \<open>utf8_text\<close> of the bytes of the file: the same bytes where
  they are well-formed UTF-8, and U+FFFD in place of every ill-formed sequence.

  A path is held resolved: the list of the directory names from the root down, with no
  \<^verbatim>\<open>.\<close>, \<^verbatim>\<open>..\<close> or empty segment left. The root is the empty list. The
  string arguments that the script appends (\<^verbatim>\<open>'app/router.js'\<close>, \<^verbatim>\<open>".."\<close>)
  stay strings and are split at \<^verbatim>\<open>/\<close> as \<^verbatim>\<open>path.join\<close> and
  \<^verbatim>\<open>path.resolve\<close> do.
\<close>

type_synonym path = "string list"

primrec split_slash :: "string \<Rightarrow> string list" where
  "split_slash [] = [[]]"
| "split_slash (c # cs) =
     (if c = CHR ''/'' then [] # split_slash cs
      else (case split_slash cs of [] \<Rightarrow> [[c]] | s # ss \<Rightarrow> (c # s) # ss))"

definition step_segment :: "path \<Rightarrow> string \<Rightarrow> path" where
  "step_segment p s =
     (if s = [] \<or> s = ''.'' then p else if s = ''..'' then butlast p else p @ [s])"

definition path_join :: "path \<Rightarrow> string list \<Rightarrow> path" where
  "path_join base args = foldl step_segment base (concat (map split_slash args))"

definition path_resolve :: "path \<Rightarrow> string list \<Rightarrow> path" where
  "path_resolve base args =
     foldl (\<lambda>p a. foldl step_segment (if a \<noteq> [] \<and> hd a = CHR ''/'' then [] else p) (split_slash a))
       base args"

definition path_dirname :: "path \<Rightarrow> path" where
  "path_dirname p = butlast p"

definition path_str :: "path \<Rightarrow> string" where
  "path_str p = (if p = [] then ''/'' else concat (map (\<lambda>s. CHR ''/'' # s) p))"

definition join_lines :: "string list \<Rightarrow> string" where
  "join_lines ls = concat (case ls of [] \<Rightarrow> [] | l # rest \<Rightarrow> l # map (\<lambda>s. CHR 0x0A # s) rest)"

text \<open>
  \<^verbatim>\<open>String.prototype.trim\<close> removes white space and line terminators from both
  ends. \<open>white_space\<close> lists their UTF-8 encodings: U+0009 to U+000D, U+0020, U+00A0,
  U+1680, U+2000 to U+200A, U+2028, U+2029, U+202F, U+205F, U+3000 and U+FEFF.
\<close>

definition white_space :: "string list" where
  "white_space =
     [[CHR 0x09], [CHR 0x0A], [CHR 0x0B], [CHR 0x0C], [CHR 0x0D], [CHR 0x20],
      [CHR 0xC2, CHR 0xA0], [CHR 0xE1, CHR 0x9A, CHR 0x80],
      [CHR 0xE2, CHR 0x80, CHR 0x80], [CHR 0xE2, CHR 0x80, CHR 0x81],
      [CHR 0xE2, CHR 0x80, CHR 0x82], [CHR 0xE2, CHR 0x80, CHR 0x83],
      [CHR 0xE2, CHR 0x80, CHR 0x84], [CHR 0xE2, CHR 0x80, CHR 0x85],
      [CHR 0xE2, CHR 0x80, CHR 0x86], [CHR 0xE2, CHR 0x80, CHR 0x87],
      [CHR 0xE2, CHR 0x80, CHR 0x88], [CHR 0xE2, CHR 0x80, CHR 0x89],
      [CHR 0xE2, CHR 0x80, CHR 0x8A], [CHR 0xE2, CHR 0x80, CHR 0xA8],
      [CHR 0xE2, CHR 0x80, CHR 0xA9], [CHR 0xE2, CHR 0x80, CHR 0xAF],
      [CHR 0xE2, CHR 0x81, CHR 0x9F], [CHR 0xE3, CHR 0x80, CHR 0x80],
      [CHR 0xEF, CHR 0xBB, CHR 0xBF]]"

function strip_leading :: "string list \<Rightarrow> string \<Rightarrow> string" where
  "strip_leading codes s =
     (case find (\<lambda>w. w \<noteq> [] \<and> prefix w s) codes of
        None \<Rightarrow> s
      | Some w \<Rightarrow> strip_leading codes (drop (length w) s))"
  by pat_completeness auto
termination
proof (relation "measure (\<lambda>(codes, s). length s)")
  show "wf (measure (\<lambda>(codes, s). length s))" by simp
next
  fix codes :: "string list" and s w :: string
  assume "find (\<lambda>w. w \<noteq> [] \<and> prefix w s) codes = Some w"
  then have "w \<noteq> []" and "prefix w s"
    by (auto simp: find_Some_iff)
  then have "s \<noteq> []" by auto
  with \<open>w \<noteq> []\<close> show "((codes, drop (length w) s), (codes, s)) \<in> measure (\<lambda>(codes, s). length s)"
    by simp
qed

declare strip_leading.simps [simp del]

definition trim :: "string \<Rightarrow> string" where
  "trim s = rev (strip_leading (map rev white_space) (rev (strip_leading white_space s)))"

subsection \<open>Decoding UTF-8\<close>

text \<open>
  Node decodes the bytes of a file as the WHATWG decoder does, one byte at a time. Between
  two bytes it holds the bytes of the sequence it is in, the number of bytes that sequence
  still needs, and the bounds for the next byte (they are narrower than \<^verbatim>\<open>80..BF\<close>
  right after \<^verbatim>\<open>E0\<close>, \<^verbatim>\<open>ED\<close>, \<^verbatim>\<open>F0\<close> and \<^verbatim>\<open>F4\<close>, which rules out
  overlong forms, surrogates and code points above U+10FFFF). A byte that cannot start a
  sequence gives U+FFFD; a byte that cannot continue the sequence gives U+FFFD for the
  sequence so far and is then read again as a first byte; the end of the bytes inside a
  sequence gives U+FFFD. A byte order mark is kept. A finished sequence is a code point
  whose encoding is that same sequence, so \<open>utf8_run\<close> gives the bytes back in place of the
  code point.
\<close>

definition replacement_character :: string where
  "replacement_character = [CHR 0xEF, CHR 0xBF, CHR 0xBD]"

type_synonym utf8_state = "string \<times> nat \<times> nat \<times> nat"

definition utf8_idle :: utf8_state where
  "utf8_idle = ([], 0, 0x80, 0xBF)"

definition utf8_start :: "char \<Rightarrow> string \<times> utf8_state" where
  "utf8_start b =
     (let n = of_char b :: nat in
      if n \<le> 0x7F then ([b], utf8_idle)
      else if 0xC2 \<le> n \<and> n \<le> 0xDF then ([], ([b], 1, 0x80, 0xBF))
      else if 0xE0 \<le> n \<and> n \<le> 0xEF then
        ([], ([b], 2, if n = 0xE0 then 0xA0 else 0x80, if n = 0xED then 0x9F else 0xBF))
      else if 0xF0 \<le> n \<and> n \<le> 0xF4 then
        ([], ([b], 3, if n = 0xF0 then 0x90 else 0x80, if n = 0xF4 then 0x8F else 0xBF))
      else (replacement_character, utf8_idle))"

fun utf8_run :: "utf8_state \<Rightarrow> string \<Rightarrow> string" where
  "utf8_run (seen, needed, lower, upper) [] = (if needed = 0 then [] else replacement_character)"
| "utf8_run (seen, needed, lower, upper) (b # bs) =
     (if needed = 0 then (case utf8_start b of (out, st) \<Rightarrow> out @ utf8_run st bs)
      else if lower \<le> of_char b \<and> of_char b \<le> upper then
        (if needed = 1 then (seen @ [b]) @ utf8_run utf8_idle bs
         else utf8_run (seen @ [b], needed - 1, 0x80, 0xBF) bs)
      else replacement_character @ (case utf8_start b of (out, st) \<Rightarrow> out @ utf8_run st bs))"

definition utf8_text :: "string \<Rightarrow> string" where
  "utf8_text bytes = utf8_run utf8_idle bytes"

text \<open>
  Well-formed UTF-8, as table 3-7 of the Unicode standard gives it: a sequence of one byte
  \<^verbatim>\<open>00..7F\<close>, of two bytes \<^verbatim>\<open>C2..DF 80..BF\<close>, of three bytes
  \<^verbatim>\<open>E0 A0..BF 80..BF\<close>, \<^verbatim>\<open>E1..EC 80..BF 80..BF\<close>, \<^verbatim>\<open>ED 80..9F 80..BF\<close>,
  \<^verbatim>\<open>EE..EF 80..BF 80..BF\<close>, or of four bytes \<^verbatim>\<open>F0 90..BF 80..BF 80..BF\<close>,
  \<^verbatim>\<open>F1..F3 80..BF 80..BF 80..BF\<close>, \<^verbatim>\<open>F4 80..8F 80..BF 80..BF\<close>.
\<close>

definition between :: "nat \<Rightarrow> nat \<Rightarrow> char \<Rightarrow> bool" where
  "between lower upper b = (lower \<le> of_char b \<and> of_char b \<le> upper)"

fun utf8_valid :: "string \<Rightarrow> bool" where
  "utf8_valid [] = True"
| "utf8_valid (b # bs) =
     (let n = of_char b :: nat in
      if n \<le> 0x7F then utf8_valid bs
      else if 0xC2 \<le> n \<and> n \<le> 0xDF then
        (case bs of c # r \<Rightarrow> between 0x80 0xBF c \<and> utf8_valid r | _ \<Rightarrow> False)
      else if 0xE0 \<le> n \<and> n \<le> 0xEF then
        (case bs of
           c # d # r \<Rightarrow>
             between (if n = 0xE0 then 0xA0 else 0x80) (if n = 0xED then 0x9F else 0xBF) c \<and>
             between 0x80 0xBF d \<and> utf8_valid r
         | _ \<Rightarrow> False)
      else if 0xF0 \<le> n \<and> n \<le> 0xF4 then
        (case bs of
           c # d # e # r \<Rightarrow>
             between (if n = 0xF0 then 0x90 else 0x80) (if n = 0xF4 then 0x8F else 0xBF) c \<and>
             between 0x80 0xBF d \<and> between 0x80 0xBF e \<and> utf8_valid r
         | _ \<Rightarrow> False)
      else False)"

section \<open>The file tree\<close>

text \<open>
  A node of the tree is a regular file with its bytes or a directory with its entries.
  \<open>node_at\<close> walks a path from the root as the kernel resolves it; \<open>store_file\<close> is
  \<^verbatim>\<open>open(p, O_WRONLY|O_CREAT|O_TRUNC)\<close> followed by the write of the whole text;
  \<open>make_dirs\<close> is \<^verbatim>\<open>mkdir -p\<close>. Each returns the error code of the failing
  system call. Symbolic links and permissions are not modelled.
\<close>

datatype node = File string | Dir "(string \<times> node) list"

datatype errno = ENOENT | ENOTDIR | EISDIR | EEXIST

primrec node_at :: "path \<Rightarrow> node \<Rightarrow> errno + node" where
  "node_at [] n = Inr n"
| "node_at (x # xs) n =
     (case n of
        File c \<Rightarrow> Inl ENOTDIR
      | Dir es \<Rightarrow> (case map_of es x of None \<Rightarrow> Inl ENOENT | Some m \<Rightarrow> node_at xs m))"

primrec store_file :: "path \<Rightarrow> string \<Rightarrow> node \<Rightarrow> errno + node" where
  "store_file [] c n = (case n of File old \<Rightarrow> Inr (File c) | Dir es \<Rightarrow> Inl EISDIR)"
| "store_file (x # xs) c n =
     (case n of
        File old \<Rightarrow> Inl ENOTDIR
      | Dir es \<Rightarrow>
          (case map_of es x of
             None \<Rightarrow> if xs = [] then Inr (Dir (AList.update x (File c) es)) else Inl ENOENT
           | Some m \<Rightarrow>
               (case store_file xs c m of
                  Inl e \<Rightarrow> Inl e
                | Inr m' \<Rightarrow> Inr (Dir (AList.update x m' es)))))"

primrec make_dirs :: "path \<Rightarrow> node \<Rightarrow> errno + node" where
  "make_dirs [] n = (case n of File c \<Rightarrow> Inl EEXIST | Dir es \<Rightarrow> Inr n)"
| "make_dirs (x # xs) n =
     (case n of
        File c \<Rightarrow> Inl ENOTDIR
      | Dir es \<Rightarrow>
          (case make_dirs xs (case map_of es x of None \<Rightarrow> Dir [] | Some m \<Rightarrow> m) of
             Inl e \<Rightarrow> Inl e
           | Inr m' \<Rightarrow> Inr (Dir (AList.update x m' es))))"

text \<open>What \<^verbatim>\<open>stat\<close> tells about a path: nothing there, a file with its text, a directory.\<close>

datatype entry = IsFile string | IsDir

definition stat :: "path \<Rightarrow> node \<Rightarrow> entry option" where
  "stat p t =
     (case node_at p t of Inl e \<Rightarrow> None | Inr (File c) \<Rightarrow> Some (IsFile c) | Inr (Dir es) \<Rightarrow> Some IsDir)"

section \<open>JavaScript values, exceptions and the process state\<close>

text \<open>
  \<open>jsval\<close> holds what \<^verbatim>\<open>JSON.parse\<close> can return, and \<^verbatim>\<open>undefined\<close>. A number
  is kept as the text \<^verbatim>\<open>Number.prototype.toString\<close> gives for it, the only thing
  the script does with one. An object is the list of its own properties. A string is kept
  as the bytes of its UTF-8 encoding, the bytes that are written and printed for it.
\<close>

datatype jsval =
    JUndefined
  | JNull
  | JBool bool
  | JNumber string
  | JString string
  | JArray "jsval list"
  | JObject "(string \<times> jsval) list"

datatype exn =
    TypeError
  | ReferenceError string
  | SyntaxError
  | SystemError errno string path

text \<open>
  \<open>js_to_string\<close> is the conversion a template literal applies to \<^verbatim>\<open>${v}\<close>. An
  array joins its elements with commas, \<^verbatim>\<open>null\<close> and \<^verbatim>\<open>undefined\<close> elements
  as empty text. A parsed object has neither a callable \<^verbatim>\<open>toString\<close> nor a
  \<^verbatim>\<open>valueOf\<close> that returns a primitive of its own, so it renders through
  \<^verbatim>\<open>Object.prototype.toString\<close>, unless an own property \<^verbatim>\<open>toString\<close> hides
  that method: then the conversion throws a TypeError.
\<close>

fun js_to_string :: "jsval \<Rightarrow> exn + string"
  and js_join :: "jsval list \<Rightarrow> exn + string" where
  "js_to_string JUndefined = Inr ''undefined''"
| "js_to_string JNull = Inr ''null''"
| "js_to_string (JBool b) = Inr (if b then ''true'' else ''false'')"
| "js_to_string (JNumber s) = Inr s"
| "js_to_string (JString s) = Inr s"
| "js_to_string (JArray vs) = js_join vs"
| "js_to_string (JObject ps) =
     (if ''toString'' \<in> fst ` set ps then Inl TypeError else Inr ''[object Object]'')"
| "js_join [] = Inr []"
| "js_join (v # vs) =
     (case (if v = JUndefined \<or> v = JNull then Inr [] else js_to_string v) of
        Inl e \<Rightarrow> Inl e
      | Inr s \<Rightarrow>
          if vs = [] then Inr s
          else (case js_join vs of Inl e \<Rightarrow> Inl e | Inr t \<Rightarrow> Inr (s @ '','' @ t)))"

text \<open>
  \<open>js_get v k\<close> is the property read \<^verbatim>\<open>v.k\<close> for a key that no prototype
  defines (the script reads \<^verbatim>\<open>name\<close> and \<^verbatim>\<open>repository\<close>): a TypeError on
  \<^verbatim>\<open>null\<close> and \<^verbatim>\<open>undefined\<close>, the own property of an object, and
  \<^verbatim>\<open>undefined\<close> in every other case.
\<close>

definition js_get :: "jsval \<Rightarrow> string \<Rightarrow> exn + jsval" where
  "js_get v k =
     (case v of
        JUndefined \<Rightarrow> Inl TypeError
      | JNull \<Rightarrow> Inl TypeError
      | JObject ps \<Rightarrow> Inr (case map_of ps k of None \<Rightarrow> JUndefined | Some x \<Rightarrow> x)
      | _ \<Rightarrow> Inr JUndefined)"

datatype stream = Log | Warn

record world =
  files :: node
  console :: "(stream \<times> string) list"

text \<open>
  A statement runs in a world and ends in a world, either normally with a value or with a
  thrown exception. Nothing in the script catches, so a throw ends the process with the
  world as it is at that moment.
\<close>

type_synonym 'a js = "world \<Rightarrow> (exn + 'a) \<times> world"

definition js_return :: "'a \<Rightarrow> 'a js" where
  "js_return x = (\<lambda>w. (Inr x, w))"

definition js_throw :: "exn \<Rightarrow> 'a js" where
  "js_throw e = (\<lambda>w. (Inl e, w))"

definition andThen :: "'a js \<Rightarrow> ('a \<Rightarrow> 'b js) \<Rightarrow> 'b js" where
  "andThen m f = (\<lambda>w. case m w of (Inl e, w') \<Rightarrow> (Inl e, w') | (Inr x, w') \<Rightarrow> f x w')"

definition js_eval :: "exn + 'a \<Rightarrow> 'a js" where
  "js_eval r = (case r of Inl e \<Rightarrow> js_throw e | Inr x \<Rightarrow> js_return x)"

definition console_log :: "string \<Rightarrow> unit js" where
  "console_log s = (\<lambda>w. (Inr (), w\<lparr>console := console w @ [(Log, s)]\<rparr>))"

definition console_warn :: "string \<Rightarrow> unit js" where
  "console_warn s = (\<lambda>w. (Inr (), w\<lparr>console := console w @ [(Warn, s)]\<rparr>))"

definition existsSync :: "path \<Rightarrow> world \<Rightarrow> bool" where
  "existsSync p w = (case node_at p (files w) of Inl e \<Rightarrow> False | Inr n \<Rightarrow> True)"

definition mkdirSync_recursive :: "path \<Rightarrow> unit js" where
  "mkdirSync_recursive p =
     (\<lambda>w. case make_dirs p (files w) of
             Inl e \<Rightarrow> (Inl (SystemError e ''mkdir'' p), w)
           | Inr t \<Rightarrow> (Inr (), w\<lparr>files := t\<rparr>))"

definition writeFileSync :: "path \<Rightarrow> string \<Rightarrow> unit js" where
  "writeFileSync p s =
     (\<lambda>w. case store_file p s (files w) of
             Inl e \<Rightarrow> (Inl (SystemError e ''open'' p), w)
           | Inr t \<Rightarrow> (Inr (), w\<lparr>files := t\<rparr>))"

definition readFileSync :: "path \<Rightarrow> string js" where
  "readFileSync p =
     (\<lambda>w. case node_at p (files w) of
             Inl e \<Rightarrow> (Inl (SystemError e ''open'' p), w)
           | Inr (File c) \<Rightarrow> (Inr (utf8_text c), w)
           | Inr (Dir es) \<Rightarrow> (Inl (SystemError EISDIR ''read'' p), w))"

section \<open>The script: \<^verbatim>\<open>src/lib/setupDoc.js\<close>\<close>

text \<open>The pictographs of the console messages, as their UTF-8 bytes.\<close>

definition warning_sign :: string where
  "warning_sign = [CHR 0xE2, CHR 0x9A, CHR 0xA0, CHR 0xEF, CHR 0xB8, CHR 0x8F]"

definition check_mark :: string where
  "check_mark = [CHR 0xE2, CHR 0x9C, CHR 0x85]"

definition rocket :: string where
  "rocket = [CHR 0xF0, CHR 0x9F, CHR 0x9A, CHR 0x80]"

definition party_popper :: string where
  "party_popper = [CHR 0xF0, CHR 0x9F, CHR 0x8E, CHR 0x89]"

definition ensureDir :: "path \<Rightarrow> unit js" where
  "ensureDir dirPath =
     (\<lambda>w. if \<not> existsSync dirPath w then mkdirSync_recursive dirPath w else js_return () w)"

text \<open>
  The template literals, line by line. In \<open>routerContent\<close> the source writes
  \<^verbatim>\<open>\*\<close>, an escape whose value is the star alone.
\<close>

definition routerContent :: string where
  \<open>routerContent = join_lines
    [''import AddonDocsRouter, { docsRoute } from 'ember-cli-addon-docs/router';'',
     ''import config from './config/environment';'',
     '''',
     ''const Router = AddonDocsRouter.extend({'',
     ''  location: config.locationType,'',
     ''  rootURL: config.rootURL,'',
     ''});'',
     '''',
     ''Router.map(function() {'',
     ''  docsRoute(this, function() { '',
     ''   });'',
     ''  this.route('not-found', { path: '/*path' });'',
     ''});'',
     '''',
     ''export default Router;'']\<close>

definition updateRouter :: "path \<Rightarrow> unit js" where
  "updateRouter testAppRoot =
     (let routerPath = path_join testAppRoot [''app/router.js''] in
      (\<lambda>w. if \<not> existsSync routerPath w
           then console_warn (warning_sign @ ''  router.js not found, skipping router setup.'') w
           else andThen (writeFileSync routerPath routerContent)
                  (\<lambda>_. console_log (check_mark @ '' Updated router.js'')) w))"

definition applicationContent :: "string \<Rightarrow> string \<Rightarrow> string" where
  \<open>applicationContent addonName repoUrl = join_lines
    ['''',
     ''{{page-title "'' @ addonName @ ''"}}'',
     ''<DocsHeader @prefix="Droid" @name="'' @ addonName @ ''" @githubUrl="'' @ repoUrl @ ''" />'',
     ''{{outlet}}'',
     ''  '']\<close>

definition updateApplicationTemplate :: "path \<Rightarrow> jsval \<Rightarrow> jsval \<Rightarrow> unit js" where
  "updateApplicationTemplate testAppRoot addonName repoUrl =
     (let appTemplatePath = path_join testAppRoot [''app/templates/application.hbs''] in
      andThen (ensureDir (path_dirname appTemplatePath)) (\<lambda>_.
      andThen (js_eval (js_to_string addonName)) (\<lambda>nameText.
      andThen (js_eval (js_to_string repoUrl)) (\<lambda>repoText.
      andThen (writeFileSync appTemplatePath (trim (applicationContent nameText repoText))) (\<lambda>_.
      console_log (check_mark @ '' Updated application.hbs''))))))"

definition placeholderContent :: string where
  "placeholderContent = join_lines [''# Documentation'', '''', ''Addon documentation goes here.'']"

definition createDocsIndex :: "path \<Rightarrow> path \<Rightarrow> unit js" where
  "createDocsIndex testAppRoot addonRoot =
     (let readmePath = path_join addonRoot [''README.md''];
          docsDir = path_join testAppRoot [''app/templates/docs''];
          docsFile = path_join docsDir [''index.md'']
      in
      andThen (ensureDir docsDir) (\<lambda>_.
      (\<lambda>w. if \<not> existsSync readmePath w
           then andThen
                  (console_warn
                     (warning_sign @ '' README.md not found, creating a placeholder index.md.''))
                  (\<lambda>_. writeFileSync docsFile placeholderContent) w
           else andThen (readFileSync readmePath) (\<lambda>readmeContent.
                andThen (writeFileSync docsFile readmeContent) (\<lambda>_.
                console_log (check_mark @ '' Created docs/index.md from README.md''))) w)))"

definition indexLayout :: string where
  \<open>indexLayout = join_lines
    [''<DocsHero/>'',
     '''',
     ''<div style="max-width: 40rem; margin: 0 auto; padding: 0 1.5rem">'',
     ''  <DocsDemo as |demo|>'',
     ''    <demo.example @name="my-demo.hbs">'',
     ''      <p>Make sure to read up on the DocsDemo component before building out this page.</p>'',
     ''    </demo.example>'',
     ''  </DocsDemo>'',
     ''</div>'',
     ''  '']\<close>

text \<open>
  \<^verbatim>\<open>createIndexLayout\<close> has the same text in both files. Its first statement reads
  the identifier \<^verbatim>\<open>testApp\<close>, which only \<^verbatim>\<open>part_000\<close> declares at module
  level. The parameter \<open>testApp\<close> is the module's binding of that identifier, \<open>None\<close>
  where the module has none: reading it then throws a ReferenceError, before
  \<^verbatim>\<open>path.join\<close> is called.
\<close>

definition createIndexLayout :: "string option \<Rightarrow> path \<Rightarrow> unit js" where
  "createIndexLayout testApp addonRoot =
     (case testApp of
        None \<Rightarrow> js_throw (ReferenceError ''testApp'')
      | Some testAppDir \<Rightarrow>
          (let indexLayoutPath = path_join addonRoot [testAppDir, ''/templates/index.hbs''] in
           andThen (ensureDir (path_dirname indexLayoutPath)) (\<lambda>_.
           andThen (writeFileSync indexLayoutPath (trim indexLayout)) (\<lambda>_.
           console_log (check_mark @ '' Created index.hbs'')))))"

definition docsLayout :: string where
  \<open>docsLayout = join_lines
    ['''',
     ''<DocsViewer as |viewer|>'',
     ''  <viewer.nav as |nav|>'',
     ''    <nav.section @label="Introduction" />'',
     ''    <nav.item @label="Overview" @route="docs.index" /> '',
     ''  </viewer.nav>'',
     '''',
     ''  <viewer.main>'',
     ''    {{outlet}}'',
     ''  </viewer.main>'',
     ''</DocsViewer>'',
     ''  '']\<close>

definition createDocsLayout :: "path \<Rightarrow> unit js" where
  "createDocsLayout testAppRoot =
     (let docsLayoutPath = path_join testAppRoot [''app/templates/docs.hbs''] in
      andThen (ensureDir (path_dirname docsLayoutPath)) (\<lambda>_.
      andThen (writeFileSync docsLayoutPath (trim docsLayout)) (\<lambda>_.
      console_log (check_mark @ '' Created docs.hbs''))))"

text \<open>
  \<^verbatim>\<open>JSON.parse\<close> is a parameter: \<open>JSON_parse text\<close> is the parsed value, \<open>None\<close>
  where the text is not valid JSON and the call throws a SyntaxError. The text it is given
  is the decoded content of the manifest.
\<close>

definition getParentPackageInfo :: "(string \<Rightarrow> jsval option) \<Rightarrow> path \<Rightarrow> jsval js" where
  "getParentPackageInfo JSON_parse addonRoot =
     (let pkgPath = path_join addonRoot [''package.json''] in
      (\<lambda>w. if \<not> existsSync pkgPath w
           then andThen (console_warn (warning_sign @ '' Could not find parent package.json''))
                  (\<lambda>_. js_return (JObject [])) w
           else andThen (readFileSync pkgPath) (\<lambda>text.
                js_eval (case JSON_parse text of None \<Rightarrow> Inl SyntaxError | Some v \<Rightarrow> Inr v)) w))"

text \<open>
  \<open>INIT_CWD\<close> is the environment variable of that name, the directory npm was started
  in, as a resolved path; \<open>None\<close> when the variable is not set, and then
  \<^verbatim>\<open>path.resolve\<close> throws a TypeError on its first argument. The call
  \<^verbatim>\<open>createIndexLayout(testAppRoot)\<close> runs in a module that declares no
  \<^verbatim>\<open>testApp\<close>.
\<close>

definition setupDoc :: "(string \<Rightarrow> jsval option) \<Rightarrow> path option \<Rightarrow> unit js" where
  "setupDoc JSON_parse INIT_CWD =
     (case INIT_CWD of
        None \<Rightarrow> js_throw TypeError
      | Some testAppRoot \<Rightarrow>
          (let addonRoot = path_resolve testAppRoot [''..'', ''addon''] in
           andThen (console_log (''addon root ------>  '' @ path_str addonRoot)) (\<lambda>_.
           andThen (console_log (''test-app root ------>  '' @ path_str testAppRoot)) (\<lambda>_.
           andThen (getParentPackageInfo JSON_parse addonRoot) (\<lambda>packageInfo.
           andThen (js_eval (js_get packageInfo ''name'')) (\<lambda>addonName.
           andThen (js_eval (js_get packageInfo ''repository'')) (\<lambda>repoUrl.
           andThen (js_eval (js_to_string addonName)) (\<lambda>nameText.
           andThen
             (console_log
                (rocket @ '' Setting up ember-cli-addon-docs for '' @ nameText @ ''...'' @ [CHR 0x0A]))
             (\<lambda>_.
           andThen (updateRouter testAppRoot) (\<lambda>_.
           andThen (updateApplicationTemplate testAppRoot addonName repoUrl) (\<lambda>_.
           andThen (createDocsIndex testAppRoot addonRoot) (\<lambda>_.
           andThen (createIndexLayout None testAppRoot) (\<lambda>_.
           andThen (createDocsLayout testAppRoot) (\<lambda>_.
           console_log
             ([CHR 0x0A] @ party_popper @ '' ember-cli-addon-docs setup completed successfully!''))
           )))))))))))))"

section \<open>The variant: \<^verbatim>\<open>src/unnamed/part_000\<close>\<close>

text \<open>
  The second file differs in where it writes: every target lies under
  \<^verbatim>\<open>addonRoot/test-app/app\<close>, built from the module constant \<^verbatim>\<open>testApp\<close>.
  \<^verbatim>\<open>ensureDir\<close>, \<^verbatim>\<open>createIndexLayout\<close> and \<^verbatim>\<open>getParentPackageInfo\<close>
  are those of the first file.
\<close>

definition testApp :: string where
  "testApp = ''test-app/app''"

definition updateRouter_part000 :: "path \<Rightarrow> unit js" where
  "updateRouter_part000 addonRoot =
     (let routerPath = path_join addonRoot [testApp, ''/router.js''] in
      (\<lambda>w. if \<not> existsSync routerPath w
           then console_warn (warning_sign @ ''  router.js not found, skipping router setup.'') w
           else andThen (writeFileSync routerPath routerContent)
                  (\<lambda>_. console_log (check_mark @ '' Updated router.js'')) w))"

definition updateApplicationTemplate_part000 :: "path \<Rightarrow> jsval \<Rightarrow> jsval \<Rightarrow> unit js" where
  "updateApplicationTemplate_part000 addonRoot addonName repoUrl =
     (let appTemplatePath = path_join addonRoot [testApp, ''/templates/application.hbs''] in
      andThen (ensureDir (path_dirname appTemplatePath)) (\<lambda>_.
      andThen (js_eval (js_to_string addonName)) (\<lambda>nameText.
      andThen (js_eval (js_to_string repoUrl)) (\<lambda>repoText.
      andThen (writeFileSync appTemplatePath (trim (applicationContent nameText repoText))) (\<lambda>_.
      console_log (check_mark @ '' Updated application.hbs''))))))"

definition createDocsIndex_part000 :: "path \<Rightarrow> unit js" where
  "createDocsIndex_part000 addonRoot =
     (let readmePath = path_join addonRoot [''README.md''];
          docsDir = path_join addonRoot [testApp, ''/templates/docs''];
          docsFile = path_join docsDir [''index.md'']
      in
      andThen (ensureDir docsDir) (\<lambda>_.
      (\<lambda>w. if \<not> existsSync readmePath w
           then andThen
                  (console_warn
                     (warning_sign @ '' README.md not found, creating a placeholder index.md.''))
                  (\<lambda>_. writeFileSync docsFile placeholderContent) w
           else andThen (readFileSync readmePath) (\<lambda>readmeContent.
                andThen (writeFileSync docsFile readmeContent) (\<lambda>_.
                console_log (check_mark @ '' Created docs/index.md from README.md''))) w)))"

definition createDocsLayout_part000 :: "path \<Rightarrow> unit js" where
  "createDocsLayout_part000 addonRoot =
     (let docsLayoutPath = path_join addonRoot [testApp, ''/templates/docs.hbs''] in
      andThen (ensureDir (path_dirname docsLayoutPath)) (\<lambda>_.
      andThen (writeFileSync docsLayoutPath (trim docsLayout)) (\<lambda>_.
      console_log (check_mark @ '' Created docs.hbs''))))"

definition setupDoc_part000 :: "(string \<Rightarrow> jsval option) \<Rightarrow> path option \<Rightarrow> unit js" where
  "setupDoc_part000 JSON_parse INIT_CWD =
     (case INIT_CWD of
        None \<Rightarrow> js_throw TypeError
      | Some cwd \<Rightarrow>
          (let addonRoot = path_resolve cwd [''..'', ''addon''] in
           andThen (console_log (''ADDON ROOT ------>  '' @ path_str addonRoot)) (\<lambda>_.
           andThen (getParentPackageInfo JSON_parse addonRoot) (\<lambda>packageInfo.
           andThen (js_eval (js_get packageInfo ''name'')) (\<lambda>addonName.
           andThen (js_eval (js_get packageInfo ''repository'')) (\<lambda>repoUrl.
           andThen (js_eval (js_to_string addonName)) (\<lambda>nameText.
           andThen
             (console_log
                (rocket @ '' Setting up ember-cli-addon-docs for '' @ nameText @ ''...'' @ [CHR 0x0A]))
             (\<lambda>_.
           andThen (updateRouter_part000 addonRoot) (\<lambda>_.
           andThen (updateApplicationTemplate_part000 addonRoot addonName repoUrl) (\<lambda>_.
           andThen (createDocsIndex_part000 addonRoot) (\<lambda>_.
           andThen (createIndexLayout (Some testApp) addonRoot) (\<lambda>_.
           andThen (createDocsLayout_part000 addonRoot) (\<lambda>_.
           console_log
             ([CHR 0x0A] @ party_popper @ '' ember-cli-addon-docs setup completed successfully!''))
           ))))))))))))"

section \<open>When a write can succeed\<close>

text \<open>
  The script catches nothing and checks only existence, so a regular file standing where a
  directory is needed, or a directory standing where a file is to be written, ends it.
  \<open>can_hold d t\<close>: the directory \<open>d\<close> exists in \<open>t\<close> or \<^verbatim>\<open>mkdir -p\<close> can create
  it, that is, neither \<open>d\<close> nor a directory above it is a regular file.
  \<open>writable g t\<close>: the file \<open>g\<close> can be written once its directory is there.
\<close>

definition is_file :: "entry option \<Rightarrow> bool" where
  "is_file e = (case e of Some (IsFile c) \<Rightarrow> True | _ \<Rightarrow> False)"

definition can_hold :: "path \<Rightarrow> node \<Rightarrow> bool" where
  "can_hold d t = (\<forall>q \<in> set (prefixes d). \<not> is_file (stat q t))"

definition writable :: "path \<Rightarrow> node \<Rightarrow> bool" where
  "writable g t = (g \<noteq> [] \<and> can_hold (path_dirname g) t \<and> stat g t \<noteq> Some IsDir)"

text \<open>
  The texts the emitters write, after \<^verbatim>\<open>trim()\<close> has removed the line break at
  the start of a template and the line break and two blanks at its end.
\<close>

definition ascii_space :: "char set" where
  "ascii_space = {CHR 0x09, CHR 0x0A, CHR 0x0B, CHR 0x0C, CHR 0x0D, CHR 0x20}"

definition applicationText :: "string \<Rightarrow> string \<Rightarrow> string" where
  \<open>applicationText addonName repoUrl = join_lines
    [''{{page-title "'' @ addonName @ ''"}}'',
     ''<DocsHeader @prefix="Droid" @name="'' @ addonName @ ''" @githubUrl="'' @ repoUrl @ ''" />'',
     ''{{outlet}}'']\<close>

definition indexText :: string where
  \<open>indexText = join_lines
    [''<DocsHero/>'',
     '''',
     ''<div style="max-width: 40rem; margin: 0 auto; padding: 0 1.5rem">'',
     ''  <DocsDemo as |demo|>'',
     ''    <demo.example @name="my-demo.hbs">'',
     ''      <p>Make sure to read up on the DocsDemo component before building out this page.</p>'',
     ''    </demo.example>'',
     ''  </DocsDemo>'',
     ''</div>'']\<close>

definition docsText :: string where
  \<open>docsText = join_lines
    [''<DocsViewer as |viewer|>'',
     ''  <viewer.nav as |nav|>'',
     ''    <nav.section @label="Introduction" />'',
     ''    <nav.item @label="Overview" @route="docs.index" /> '',
     ''  </viewer.nav>'',
     '''',
     ''  <viewer.main>'',
     ''    {{outlet}}'',
     ''  </viewer.main>'',
     ''</DocsViewer>'']\<close>

section \<open>Example worlds\<close>

text \<open>
  Concrete inputs on which the theorems below are run: a project with the addon and its test
  application side by side, the same project with the test application inside the addon
  (the layout \<^verbatim>\<open>part_000\<close> writes to), and a project with nothing but the two roots.
  \<open>demo_parse\<close> stands for \<^verbatim>\<open>JSON.parse\<close> on the manifests used here.
\<close>

definition demo_manifest :: string where
  \<open>demo_manifest = ''{"name":"Foo","repository":"https://x"}''\<close>

definition demo_parse :: "string \<Rightarrow> jsval option" where
  \<open>demo_parse text =
     (if text = demo_manifest
      then Some (JObject [(''name'', JString ''Foo''), (''repository'', JString ''https://x'')])
      else if text = ''{"name":"Foo"}'' then Some (JObject [(''name'', JString ''Foo'')])
      else if text = ''{}'' then Some (JObject [])
      else if text = ''null'' then Some JNull
      else None)\<close>

definition demo_tree :: node where
  "demo_tree =
     Dir [(''proj'',
           Dir [(''addon'',
                 Dir [(''package.json'', File demo_manifest), (''README.md'', File ''# Foo'')]),
                (''test-app'', Dir [(''app'', Dir [(''router.js'', File ''old router'')])])])]"

definition nested_tree :: node where
  "nested_tree =
     Dir [(''proj'',
           Dir [(''addon'',
                 Dir [(''package.json'', File demo_manifest), (''README.md'', File ''# Foo''),
                      (''test-app'', Dir [(''app'', Dir [(''router.js'', File ''old router'')])])])])]"

definition bare_tree :: node where
  "bare_tree = Dir [(''proj'', Dir [(''addon'', Dir []), (''test-app'', Dir [])])]"

definition world_of :: "node \<Rightarrow> world" where
  "world_of t = \<lparr>files = t, console = []\<rparr>"

text \<open>
  Two obstructed projects: in \<open>blocked_tree\<close> a regular file stands at
  \<^verbatim>\<open>test-app/app\<close>, in \<open>clogged_tree\<close> at \<^verbatim>\<open>test-app/app/templates\<close>.
\<close>

definition blocked_tree :: node where
  "blocked_tree =
     Dir [(''proj'',
           Dir [(''addon'', Dir [(''package.json'', File demo_manifest), (''README.md'', File ''# Foo'')]),
                (''test-app'', Dir [(''app'', File ''not a directory'')])])]"

definition clogged_tree :: node where
  "clogged_tree =
     Dir [(''proj'',
           Dir [(''addon'', Dir [(''package.json'', File demo_manifest)]),
                (''test-app'', Dir [(''app'', Dir [(''templates'', File ''not a directory'')])])])]"

text \<open>
  Two projects that hold both layouts, the test application beside the addon and inside it.
  In \<open>accented_tree\<close> the \<^verbatim>\<open>README.md\<close> has a letter of two bytes
  (U+00E9, \<^verbatim>\<open>C3 A9\<close>); in \<open>garbled_tree\<close> it is the one byte \<^verbatim>\<open>FF\<close>, which
  no UTF-8 text contains.
\<close>

definition accented_tree :: node where
  "accented_tree =
     Dir [(''proj'',
           Dir [(''addon'',
                 Dir [(''package.json'', File demo_manifest),
                      (''README.md'', File [CHR ''#'', CHR '' '', CHR 0xC3, CHR 0xA9]),
                      (''test-app'', Dir [])]),
                (''test-app'', Dir [])])]"

definition garbled_tree :: node where
  "garbled_tree =
     Dir [(''proj'',
           Dir [(''addon'',
                 Dir [(''package.json'', File demo_manifest), (''README.md'', File [CHR 0xFF]),
                      (''test-app'', Dir [])]),
                (''test-app'', Dir [])])]"

text \<open>
  The nested project once more, with a manifest that has one more key, and a
  \<^verbatim>\<open>JSON.parse\<close> that reads it too.
\<close>

definition versioned_manifest :: string where
  \<open>versioned_manifest = ''{"name":"Foo","version":"2.0.0","repository":"https://x"}''\<close>

definition versioned_parse :: "string \<Rightarrow> jsval option" where
  "versioned_parse text =
     (if text = versioned_manifest
      then Some (JObject [(''name'', JString ''Foo''), (''version'', JString ''2.0.0''),
                          (''repository'', JString ''https://x'')])
      else demo_parse text)"

definition versioned_tree :: node where
  "versioned_tree =
     Dir [(''proj'',
           Dir [(''addon'',
                 Dir [(''package.json'', File versioned_manifest), (''README.md'', File ''# Foo''),
                      (''test-app'', Dir [(''app'', Dir [(''router.js'', File ''old router'')])])])])]"

section \<open>Vocabulary of the proofs\<close>

text \<open>\<open>keeps q m\<close>: running \<open>m\<close>, whatever its outcome, leaves the path \<open>q\<close> as it was.\<close>

definition keeps :: "path \<Rightarrow> 'a js \<Rightarrow> bool" where
  "keeps q m = (\<forall>w. stat q (files (snd (m w))) = stat q (files w))"

text \<open>
  The files each script reads and the files it writes, as the source builds their paths.
  (\<^verbatim>\<open>src/lib/setupDoc.js\<close> never gets to build the path of \<^verbatim>\<open>index.hbs\<close>.)
\<close>

definition input_files :: "path \<Rightarrow> path list" where
  "input_files addonRoot =
     [path_join addonRoot [''package.json''], path_join addonRoot [''README.md'']]"

definition write_targets :: "path \<Rightarrow> path list" where
  "write_targets testAppRoot =
     [path_join testAppRoot [''app/router.js''],
      path_join testAppRoot [''app/templates/application.hbs''],
      path_join (path_join testAppRoot [''app/templates/docs'']) [''index.md''],
      path_join testAppRoot [''app/templates/docs.hbs'']]"

definition write_targets_part000 :: "path \<Rightarrow> path list" where
  "write_targets_part000 addonRoot =
     [path_join addonRoot [testApp, ''/router.js''],
      path_join addonRoot [testApp, ''/templates/application.hbs''],
      path_join (path_join addonRoot [testApp, ''/templates/docs'']) [''index.md''],
      path_join addonRoot [testApp, ''/templates/index.hbs''],
      path_join addonRoot [testApp, ''/templates/docs.hbs'']]"

text \<open>
  \<open>open_safe m\<close>: whenever \<open>m\<close> ends in a failed \<^verbatim>\<open>open\<close> of a path, the path of the
  directory that should hold it exists at that moment, so the failure is not
  \<^verbatim>\<open>ENOENT\<close>.
\<close>

definition open_safe :: "'a js \<Rightarrow> bool" where
  "open_safe m =
     (\<forall>w code g. fst (m w) = Inl (SystemError code ''open'' g) \<longrightarrow>
        stat (path_dirname g) (files (snd (m w))) \<noteq> None \<and> code \<noteq> ENOENT)"

text \<open>
  For the second run. \<open>on_tree m t\<close> is the outcome of \<open>m\<close> and the tree it leaves, started on
  the tree \<open>t\<close>; \<open>tree_only m\<close>: outcome and tree depend on nothing but the tree \<open>m\<close> starts
  on (the console is only ever appended to). \<open>reruns m\<close>: run again on the tree it left, \<open>m\<close>
  has the same outcome and leaves that tree as it is. \<open>settled m x t\<close>: on \<open>t\<close> the statement
  returns \<open>x\<close> and changes nothing. \<open>stable_under m k\<close>: where \<open>m\<close> is settled it is still
  settled after \<open>k\<close> has run. \<open>looks_at qs m\<close>: whether \<open>m\<close> is settled is decided by what
  stands at the paths \<open>qs\<close>.
\<close>

definition on_tree :: "'a js \<Rightarrow> node \<Rightarrow> (exn + 'a) \<times> node" where
  "on_tree m t = (fst (m (world_of t)), files (snd (m (world_of t))))"

definition tree_only :: "'a js \<Rightarrow> bool" where
  "tree_only m =
     (\<forall>w w'. files w = files w' \<longrightarrow>
        fst (m w) = fst (m w') \<and> files (snd (m w)) = files (snd (m w')))"

definition reruns :: "'a js \<Rightarrow> bool" where
  "reruns m = (\<forall>t. on_tree m (snd (on_tree m t)) = on_tree m t)"

definition settled :: "'a js \<Rightarrow> 'a \<Rightarrow> node \<Rightarrow> bool" where
  "settled m x t = (on_tree m t = (Inr x, t))"

definition stable_under :: "'a js \<Rightarrow> 'b js \<Rightarrow> bool" where
  "stable_under m k = (\<forall>t x. settled m x t \<longrightarrow> settled m x (snd (on_tree k t)))"

definition looks_at :: "path list \<Rightarrow> 'a js \<Rightarrow> bool" where
  "looks_at qs m =
     (\<forall>t t' x. (\<forall>q \<in> set qs. stat q t' = stat q t) \<longrightarrow> settled m x t \<longrightarrow> settled m x t')"

text \<open>\<open>quiet m\<close>: \<open>m\<close> never changes the tree.\<close>

definition quiet :: "'a js \<Rightarrow> bool" where
  "quiet m = (\<forall>t. snd (on_tree m t) = t)"

text \<open>
  The five emitters and the closing message, in the order both scripts call them.
  \<open>binding\<close> is the module's \<^verbatim>\<open>testApp\<close>, \<open>layoutRoot\<close> the argument of
  \<^verbatim>\<open>createIndexLayout\<close>.
\<close>

definition emitters ::
  "string option \<Rightarrow> path \<Rightarrow> path \<Rightarrow> path \<Rightarrow> jsval \<Rightarrow> jsval \<Rightarrow> unit js" where
  "emitters binding appRoot layoutRoot addonRoot addonName repoUrl =
     andThen (updateRouter appRoot) (\<lambda>_.
     andThen (updateApplicationTemplate appRoot addonName repoUrl) (\<lambda>_.
     andThen (createDocsIndex appRoot addonRoot) (\<lambda>_.
     andThen (createIndexLayout binding layoutRoot) (\<lambda>_.
     andThen (createDocsLayout appRoot) (\<lambda>_.
     console_log
       ([CHR 0x0A] @ party_popper @ '' ember-cli-addon-docs setup completed successfully!''))))))"

text \<open>
  For two runs side by side. \<open>kind\<close> forgets the text of a file. \<open>alike p w1 w2\<close>: the
  two worlds have the same console, the same kind of thing at every path, and the same
  thing at every path other than \<open>p\<close>. \<open>oblivious p m\<close>: started in two worlds that are
  alike, \<open>m\<close> has the same outcome in both and leaves them alike.
\<close>

definition kind :: "entry option \<Rightarrow> bool option" where
  "kind e = map_option (\<lambda>x. x = IsDir) e"

definition alike :: "path \<Rightarrow> world \<Rightarrow> world \<Rightarrow> bool" where
  "alike p w1 w2 =
     (console w1 = console w2 \<and>
      (\<forall>q. kind (stat q (files w1)) = kind (stat q (files w2)) \<and>
           (q \<noteq> p \<longrightarrow> stat q (files w1) = stat q (files w2))))"

definition oblivious :: "path \<Rightarrow> 'a js \<Rightarrow> bool" where
  "oblivious p m =
     (\<forall>w1 w2. alike p w1 w2 \<longrightarrow> fst (m w1) = fst (m w2) \<and> alike p (snd (m w1)) (snd (m w2)))"

text \<open>
  For the decoder. \<open>completes seen needed lower upper\<close>: the bytes \<open>seen\<close>, followed by
  \<open>needed\<close> bytes of which the first lies within the bounds and the others in
  \<^verbatim>\<open>80..BF\<close>, are a well-formed sequence.
\<close>

definition completes :: "string \<Rightarrow> nat \<Rightarrow> nat \<Rightarrow> nat \<Rightarrow> bool" where
  "completes seen needed lower upper =
     (\<forall>xs v. length xs = needed \<longrightarrow> between lower upper (hd xs) \<longrightarrow>
        (\<forall>x \<in> set (tl xs). between 0x80 0xBF x) \<longrightarrow> utf8_valid v \<longrightarrow>
        utf8_valid (seen @ xs @ v))"

section \<open>Facts about the file tree and the primitives\<close>

lemma stat_Nil: "stat [] t = Some (case t of File c \<Rightarrow> IsFile c | Dir es \<Rightarrow> IsDir)"
  by (simp add: stat_def split: node.splits)

lemma stat_Cons_File: "stat (x # xs) (File c) = None"
  by (simp add: stat_def)

lemma stat_Cons_Dir:
  "stat (x # xs) (Dir es) = (case map_of es x of None \<Rightarrow> None | Some m \<Rightarrow> stat xs m)"
  by (simp add: stat_def split: option.splits)

lemma stat_File: "stat q (File c) = (if q = [] then Some (IsFile c) else None)"
  by (cases q) (simp_all add: stat_Nil stat_Cons_File)

lemmas stat_simps = stat_Nil stat_Cons_File stat_Cons_Dir

lemma stat_store_file:
  "store_file p c t = Inr t' \<Longrightarrow> stat q t' = (if q = p then Some (IsFile c) else stat q t)"
proof (induction p arbitrary: t t' q)
  case Nil
  then show ?case
    by (cases t; cases q) (auto simp: stat_simps)
next
  case (Cons x xs)
  then obtain es where t: "t = Dir es"
    by (cases t) auto
  show ?case
  proof (cases "map_of es x")
    case None
    with Cons.prems t have xs: "xs = []" and t': "t' = Dir (AList.update x (File c) es)"
      by (auto split: if_splits)
    show ?thesis
      using None
      by (cases q) (auto simp: t t' xs stat_simps stat_File update_conv' split: option.splits)
  next
    case (Some m)
    with Cons.prems t obtain m' where m': "store_file xs c m = Inr m'"
      and t': "t' = Dir (AList.update x m' es)"
      by (auto split: sum.splits)
    show ?thesis
      using Some Cons.IH [OF m']
      by (cases q) (auto simp: t t' stat_simps update_conv' split: option.splits)
  qed
qed

lemma store_file_same:
  "stat p t = Some (IsFile c) \<Longrightarrow> store_file p c t = Inr t"
proof (induction p arbitrary: t)
  case Nil
  then show ?case by (cases t) (auto simp: stat_simps)
next
  case (Cons x xs)
  then show ?case
    by (cases t) (auto simp: stat_simps update_triv split: option.splits)
qed

lemma stat_parent:
  "stat (p @ [x]) t \<noteq> None \<Longrightarrow> stat p t = Some IsDir"
proof (induction p arbitrary: t)
  case Nil
  then show ?case by (cases t) (auto simp: stat_simps)
next
  case (Cons y ys)
  then show ?case
    by (cases t) (auto simp: stat_simps split: option.splits)
qed

lemma store_file_ok:
  "stat p t = Some IsDir \<Longrightarrow> stat (p @ [x]) t \<noteq> Some IsDir \<Longrightarrow> \<exists>t'. store_file (p @ [x]) c t = Inr t'"
proof (induction p arbitrary: t)
  case Nil
  then show ?case
    by (cases t) (auto simp: stat_simps split: option.splits node.splits)
next
  case (Cons y ys)
  then obtain es where t: "t = Dir es"
    by (cases t) (auto simp: stat_simps)
  with Cons.prems obtain m where m: "map_of es y = Some m"
    by (auto simp: stat_simps split: option.splits)
  from Cons.prems t m have "stat ys m = Some IsDir" "stat (ys @ [x]) m \<noteq> Some IsDir"
    by (auto simp: stat_simps)
  from Cons.IH [OF this] show ?case
    by (auto simp: t m)
qed

lemma store_file_error:
  "store_file p c t = Inl e \<Longrightarrow>
     (e = EISDIR \<and> stat p t = Some IsDir) \<or>
     (e = ENOTDIR \<and> p \<noteq> [] \<and> stat p t = None \<and> (\<exists>q d. strict_prefix q p \<and> stat q t = Some (IsFile d))) \<or>
     (e = ENOENT \<and> p \<noteq> [] \<and> stat (butlast p) t = None)"
proof (induction p arbitrary: t)
  case Nil
  then show ?case by (cases t) (auto simp: stat_simps)
next
  case (Cons x xs)
  show ?case
  proof (cases t)
    case (File d)
    with Cons.prems have "e = ENOTDIR" by simp
    moreover have "strict_prefix [] (x # xs) \<and> stat [] t = Some (IsFile d)"
      by (simp add: File stat_simps)
    then have "\<exists>q d. strict_prefix q (x # xs) \<and> stat q t = Some (IsFile d)"
      by blast
    moreover have "stat (x # xs) t = None"
      by (simp add: File stat_simps)
    ultimately show ?thesis
      by simp
  next
    case (Dir es)
    show ?thesis
    proof (cases "map_of es x")
      case None
      with Cons.prems Dir show ?thesis
        by (auto simp: stat_simps split: if_splits)
    next
      case (Some m)
      with Cons.prems Dir have "store_file xs c m = Inl e"
        by (auto split: sum.splits)
      from Cons.IH [OF this] show ?thesis
        apply (elim disjE conjE exE)
          apply (simp add: Dir Some stat_simps)
        subgoal for q d
          apply (rule disjI2, rule disjI1)
          apply (simp add: Dir Some stat_simps)
          apply (rule exI [of _ "x # q"])
          apply (simp add: Dir Some stat_simps)
          done
        apply (rule disjI2, rule disjI2)
        apply (simp add: Dir Some stat_simps)
        done
    qed
  qed
qed


lemma stat_Dir_Nil: "stat q (Dir []) = (if q = [] then Some IsDir else None)"
  by (cases q) (simp_all add: stat_simps)

lemma stat_make_dirs:
  "make_dirs p t = Inr t' \<Longrightarrow> stat q t' = (if prefix q p then Some IsDir else stat q t)"
proof (induction p arbitrary: t t' q)
  case Nil
  then show ?case
    by (cases t) (auto simp: stat_simps)
next
  case (Cons x xs)
  then obtain es where t: "t = Dir es"
    by (cases t) auto
  define m0 where "m0 = (case map_of es x of None \<Rightarrow> Dir [] | Some m \<Rightarrow> m)"
  from Cons.prems t obtain m' where m': "make_dirs xs m0 = Inr m'"
    and t': "t' = Dir (AList.update x m' es)"
    by (auto simp: m0_def split: sum.splits)
  show ?case
  proof (cases q)
    case Nil
    then show ?thesis by (simp add: t t' stat_simps)
  next
    case (Cons y ys)
    show ?thesis
      using Cons.IH [OF m', of ys]
      by (auto simp: Cons t t' m0_def stat_simps stat_Dir_Nil update_conv' split: option.splits)
  qed
qed

lemma make_dirs_error:
  "make_dirs p t = Inl e \<Longrightarrow>
     (e = EEXIST \<and> (\<exists>d. stat p t = Some (IsFile d))) \<or>
     (e = ENOTDIR \<and> (\<exists>q d. strict_prefix q p \<and> stat q t = Some (IsFile d)))"
proof (induction p arbitrary: t)
  case Nil
  then show ?case by (cases t) (auto simp: stat_simps)
next
  case (Cons x xs)
  show ?case
  proof (cases t)
    case (File d)
    with Cons.prems have "e = ENOTDIR" by simp
    moreover have "strict_prefix [] (x # xs) \<and> stat [] t = Some (IsFile d)"
      by (simp add: File stat_simps)
    then have "\<exists>q d. strict_prefix q (x # xs) \<and> stat q t = Some (IsFile d)"
      by blast
    ultimately show ?thesis by simp
  next
    case (Dir es)
    show ?thesis
    proof (cases "map_of es x")
      case None
      with Cons.prems Dir have "make_dirs xs (Dir []) = Inl e"
        by (auto split: sum.splits)
      from Cons.IH [OF this] show ?thesis
        by (auto simp: stat_Dir_Nil split: if_splits)
    next
      case (Some m)
      with Cons.prems Dir have "make_dirs xs m = Inl e"
        by (auto split: sum.splits)
      from Cons.IH [OF this] show ?thesis
      proof (elim disjE conjE exE)
        fix d assume "e = EEXIST" "stat xs m = Some (IsFile d)"
        then show ?thesis by (simp add: Dir Some stat_simps)
      next
        fix q d assume e: "e = ENOTDIR" and q: "strict_prefix q xs" "stat q m = Some (IsFile d)"
        then have "strict_prefix (x # q) (x # xs) \<and> stat (x # q) t = Some (IsFile d)"
          by (simp add: Dir Some stat_simps)
        then have "\<exists>q d. strict_prefix q (x # xs) \<and> stat q t = Some (IsFile d)"
          by blast
        with e show ?thesis by simp
      qed
    qed
  qed
qed

lemma make_dirs_ok:
  "(\<And>q d. prefix q p \<Longrightarrow> stat q t \<noteq> Some (IsFile d)) \<Longrightarrow> \<exists>t'. make_dirs p t = Inr t'"
proof (cases "make_dirs p t")
  case (Inl e)
  assume free: "\<And>q d. prefix q p \<Longrightarrow> stat q t \<noteq> Some (IsFile d)"
  from make_dirs_error [OF Inl] free show ?thesis
    by (auto simp: strict_prefix_def)
next
  case (Inr t')
  then show ?thesis by blast
qed

lemma node_at_file: "stat p t = Some (IsFile c) \<Longrightarrow> node_at p t = Inr (File c)"
  by (auto simp: stat_def split: sum.splits node.splits)

lemma node_at_dir: "stat p t = Some IsDir \<Longrightarrow> \<exists>es. node_at p t = Inr (Dir es)"
  by (auto simp: stat_def split: sum.splits node.splits)

lemma node_at_none: "stat p t = None \<Longrightarrow> \<exists>e. node_at p t = Inl e"
  by (auto simp: stat_def split: sum.splits node.splits)


subsection \<open>Decoding\<close>

lemma utf8_run_Nil: "utf8_run utf8_idle [] = []"
  by (simp add: utf8_idle_def)

lemma utf8_run_one:
  "(of_char b :: nat) \<le> 0x7F \<Longrightarrow> utf8_run utf8_idle (b # bs) = b # utf8_run utf8_idle bs"
  by (simp add: utf8_idle_def utf8_start_def)

lemma utf8_run_two:
  assumes "0xC2 \<le> (of_char b :: nat)" "(of_char b :: nat) \<le> 0xDF" "between 0x80 0xBF c"
  shows "utf8_run utf8_idle (b # c # r) = b # c # utf8_run utf8_idle r"
  using assms by (simp add: utf8_idle_def utf8_start_def between_def)

lemma utf8_run_three:
  assumes "0xE0 \<le> (of_char b :: nat)" "(of_char b :: nat) \<le> 0xEF"
    and "between (if (of_char b :: nat) = 0xE0 then 0xA0 else 0x80)
           (if (of_char b :: nat) = 0xED then 0x9F else 0xBF) c"
    and "between 0x80 0xBF d"
  shows "utf8_run utf8_idle (b # c # d # r) = b # c # d # utf8_run utf8_idle r"
  using assms by (simp add: utf8_idle_def utf8_start_def between_def Let_def)

lemma utf8_run_four:
  assumes "0xF0 \<le> (of_char b :: nat)" "(of_char b :: nat) \<le> 0xF4"
    and "between (if (of_char b :: nat) = 0xF0 then 0x90 else 0x80)
           (if (of_char b :: nat) = 0xF4 then 0x8F else 0xBF) c"
    and "between 0x80 0xBF d" "between 0x80 0xBF e"
  shows "utf8_run utf8_idle (b # c # d # e # r) = b # c # d # e # utf8_run utf8_idle r"
  using assms by (simp add: utf8_idle_def utf8_start_def between_def Let_def)

lemma utf8_valid_cases:
  assumes "utf8_valid (b # bs)"
  obtains
    (one) "(of_char b :: nat) \<le> 0x7F" "utf8_valid bs"
  | (two) c r where "0xC2 \<le> (of_char b :: nat)" "(of_char b :: nat) \<le> 0xDF" "bs = c # r"
      "between 0x80 0xBF c" "utf8_valid r"
  | (three) c d r where "0xE0 \<le> (of_char b :: nat)" "(of_char b :: nat) \<le> 0xEF" "bs = c # d # r"
      "between (if (of_char b :: nat) = 0xE0 then 0xA0 else 0x80)
         (if (of_char b :: nat) = 0xED then 0x9F else 0xBF) c"
      "between 0x80 0xBF d" "utf8_valid r"
  | (four) c d e r where "0xF0 \<le> (of_char b :: nat)" "(of_char b :: nat) \<le> 0xF4"
      "bs = c # d # e # r"
      "between (if (of_char b :: nat) = 0xF0 then 0x90 else 0x80)
         (if (of_char b :: nat) = 0xF4 then 0x8F else 0xBF) c"
      "between 0x80 0xBF d" "between 0x80 0xBF e" "utf8_valid r"
proof -
  let ?n = "of_char b :: nat"
  show thesis
  proof (cases "?n \<le> 0x7F")
    case True
    with assms one show ?thesis
      by simp
  next
    case a: False
    show ?thesis
    proof (cases "0xC2 \<le> ?n \<and> ?n \<le> 0xDF")
      case True
      with a assms two show ?thesis
        by (cases bs) (simp_all add: Let_def)
    next
      case b: False
      show ?thesis
      proof (cases "0xE0 \<le> ?n \<and> ?n \<le> 0xEF")
        case True
        with a b assms have "case bs of
             c # d # r \<Rightarrow>
               between (if ?n = 0xE0 then 0xA0 else 0x80) (if ?n = 0xED then 0x9F else 0xBF) c \<and>
               between 0x80 0xBF d \<and> utf8_valid r
           | _ \<Rightarrow> False"
          by (simp add: Let_def)
        then obtain c d r where "bs = c # d # r"
          "between (if ?n = 0xE0 then 0xA0 else 0x80) (if ?n = 0xED then 0x9F else 0xBF) c"
          "between 0x80 0xBF d" "utf8_valid r"
          by (auto split: list.splits)
        with True three show ?thesis
          by blast
      next
        case c: False
        with a b assms have f: "0xF0 \<le> ?n \<and> ?n \<le> 0xF4"
          by (simp add: Let_def split: if_splits)
        with a b c assms have "case bs of
             c # d # e # r \<Rightarrow>
               between (if ?n = 0xF0 then 0x90 else 0x80) (if ?n = 0xF4 then 0x8F else 0xBF) c \<and>
               between 0x80 0xBF d \<and> between 0x80 0xBF e \<and> utf8_valid r
           | _ \<Rightarrow> False"
          by (simp add: Let_def)
        then obtain c d e r where "bs = c # d # e # r"
          "between (if ?n = 0xF0 then 0x90 else 0x80) (if ?n = 0xF4 then 0x8F else 0xBF) c"
          "between 0x80 0xBF d" "between 0x80 0xBF e" "utf8_valid r"
          by (auto split: list.splits)
        with f four show ?thesis
          by blast
      qed
    qed
  qed
qed

lemma utf8_valid_run: "utf8_valid s \<Longrightarrow> utf8_run utf8_idle s = s"
proof (induction "length s" arbitrary: s rule: less_induct)
  case less
  show ?case
  proof (cases s)
    case Nil
    then show ?thesis by (simp add: utf8_run_Nil)
  next
    case (Cons b bs)
    from less.prems [unfolded Cons] show ?thesis
    proof (cases rule: utf8_valid_cases)
      case one
      with less.hyps [of bs] show ?thesis
        by (simp add: Cons utf8_run_one)
    next
      case (two c r)
      with less.hyps [of r] show ?thesis
        by (simp add: Cons utf8_run_two)
    next
      case (three c d r)
      with less.hyps [of r] show ?thesis
        by (simp add: Cons utf8_run_three)
    next
      case (four c d e r)
      with less.hyps [of r] show ?thesis
        by (simp add: Cons utf8_run_four)
    qed
  qed
qed

lemma utf8_text_valid: "utf8_valid s \<Longrightarrow> utf8_text s = s"
  by (simp add: utf8_text_def utf8_valid_run)

lemma utf8_text_ascii: "\<forall>c \<in> set s. (of_char c :: nat) \<le> 0x7F \<Longrightarrow> utf8_text s = s"
  unfolding utf8_text_def by (induction s) (simp_all add: utf8_run_one utf8_run_Nil)


lemma utf8_run_fold:
  "(case utf8_start b of (out, st) \<Rightarrow> out @ utf8_run st bs) = utf8_run utf8_idle (b # bs)"
  by (simp add: utf8_idle_def)

lemma utf8_run_more:
  assumes "0 < needed"
  shows "utf8_run (seen, needed, lower, upper) (c # r) =
    (if between lower upper c
     then (if needed = 1 then seen @ [c] @ utf8_run utf8_idle r
           else utf8_run (seen @ [c], needed - 1, 0x80, 0xBF) r)
     else replacement_character @ utf8_run utf8_idle (c # r))"
  using assms by (simp add: between_def utf8_idle_def)

lemma utf8_valid_replacement: "utf8_valid v \<Longrightarrow> utf8_valid (replacement_character @ v)"
  by (simp add: replacement_character_def between_def)

lemma completes_last:
  assumes "completes seen 1 lower upper" "between lower upper c" "utf8_valid v"
  shows "utf8_valid (seen @ [c] @ v)"
  using assms(1) [unfolded completes_def, rule_format, of "[c]" v] assms(2,3) by simp

lemma completes_next:
  assumes "completes seen needed lower upper" "between lower upper c" "1 < needed"
  shows "completes (seen @ [c]) (needed - 1) 0x80 0xBF"
  unfolding completes_def
proof (intro allI impI)
  fix xs v
  assume xs: "length xs = needed - 1" "between 0x80 0xBF (hd xs)"
    "\<forall>x \<in> set (tl xs). between 0x80 0xBF x" and v: "utf8_valid v"
  from xs(1) assms(3) have "xs \<noteq> []"
    by auto
  with xs(2,3) have "\<forall>x \<in> set xs. between 0x80 0xBF x"
    by (cases xs) simp_all
  with assms(1) [unfolded completes_def, rule_format, of "c # xs" v] xs(1) assms(2,3) v
  show "utf8_valid ((seen @ [c]) @ xs @ v)"
    by simp
qed

lemma utf8_run_valid_from:
  assumes "\<And>t. length t \<le> length s \<Longrightarrow> utf8_valid (utf8_run utf8_idle t)"
    and "0 < needed" "completes seen needed lower upper"
  shows "utf8_valid (utf8_run (seen, needed, lower, upper) s)"
  using assms
proof (induction s arbitrary: seen needed lower upper)
  case Nil
  then show ?case
    using utf8_valid_replacement [of "[]"] by simp
next
  case (Cons c r)
  have rest: "utf8_valid (utf8_run utf8_idle t)" if "length t \<le> length r" for t
    using Cons.prems(1) [of t] that by simp
  show ?case
  proof (cases "between lower upper c")
    case False
    with Cons.prems(1) [of "c # r"] Cons.prems(2) show ?thesis
      by (simp add: utf8_run_more utf8_valid_replacement del: utf8_run.simps)
  next
    case True
    show ?thesis
    proof (cases "needed = 1")
      case one: True
      with True Cons.prems(2) completes_last [OF _ True rest [of r], of seen] Cons.prems(3)
      show ?thesis
        by (simp add: utf8_run_more del: utf8_run.simps)
    next
      case False
      with Cons.prems(2) have more: "1 < needed" "0 < needed - 1"
        by simp_all
      from Cons.IH [OF rest more(2) completes_next [OF Cons.prems(3) True more(1)]]
        True False Cons.prems(2)
      show ?thesis
        by (simp add: utf8_run_more del: utf8_run.simps)
    qed
  qed
qed

lemma length_eq_1: "length xs = Suc 0 \<Longrightarrow> \<exists>c. xs = [c]"
  by (cases xs) simp_all

lemma length_eq_2: "length xs = 2 \<Longrightarrow> \<exists>c d. xs = [c, d]"
  by (cases xs; cases "tl xs") simp_all

lemma length_eq_3: "length xs = 3 \<Longrightarrow> \<exists>c d e. xs = [c, d, e]"
  by (cases xs; cases "tl xs"; cases "tl (tl xs)") simp_all

lemma utf8_start_cases:
  obtains
    (one) "(of_char b :: nat) \<le> 0x7F" "utf8_start b = ([b], utf8_idle)"
  | (lead) needed lower upper where "utf8_start b = ([], ([b], needed, lower, upper))"
      "0 < needed" "completes [b] needed lower upper"
  | (bad) "utf8_start b = (replacement_character, utf8_idle)"
proof -
  let ?n = "of_char b :: nat"
  consider "?n \<le> 0x7F" | "0xC2 \<le> ?n \<and> ?n \<le> 0xDF" | "0xE0 \<le> ?n \<and> ?n \<le> 0xEF"
    | "0xF0 \<le> ?n \<and> ?n \<le> 0xF4"
    | "\<not> ?n \<le> 0x7F" "\<not> (0xC2 \<le> ?n \<and> ?n \<le> 0xDF)" "\<not> (0xE0 \<le> ?n \<and> ?n \<le> 0xEF)"
      "\<not> (0xF0 \<le> ?n \<and> ?n \<le> 0xF4)"
    by blast
  then show thesis
  proof cases
    case 1
    then show ?thesis
      by (intro one) (simp_all add: utf8_start_def)
  next
    case 2
    then have "utf8_start b = ([], ([b], 1, 0x80, 0xBF))"
      by (simp add: utf8_start_def)
    moreover have "completes [b] 1 0x80 0xBF"
      unfolding completes_def using 2 by (auto dest!: length_eq_1 simp: Let_def)
    ultimately show ?thesis
      by (intro lead) simp_all
  next
    case 3
    then have "utf8_start b =
        ([], ([b], 2, if ?n = 0xE0 then 0xA0 else 0x80, if ?n = 0xED then 0x9F else 0xBF))"
      by (simp add: utf8_start_def Let_def)
    moreover have "completes [b] 2 (if ?n = 0xE0 then 0xA0 else 0x80)
        (if ?n = 0xED then 0x9F else 0xBF)"
      unfolding completes_def
    proof (intro allI impI)
      fix xs v
      assume xs: "length xs = 2" and rest: "between (if ?n = 0xE0 then 0xA0 else 0x80)
          (if ?n = 0xED then 0x9F else 0xBF) (hd xs)" "\<forall>x \<in> set (tl xs). between 0x80 0xBF x"
        "utf8_valid v"
      from length_eq_2 [OF xs] obtain c d where "xs = [c, d]"
        by blast
      with rest 3 show "utf8_valid ([b] @ xs @ v)"
        by (simp add: Let_def)
    qed
    ultimately show ?thesis
      by (intro lead) simp_all
  next
    case 4
    then have "utf8_start b =
        ([], ([b], 3, if ?n = 0xF0 then 0x90 else 0x80, if ?n = 0xF4 then 0x8F else 0xBF))"
      by (simp add: utf8_start_def Let_def)
    moreover have "completes [b] 3 (if ?n = 0xF0 then 0x90 else 0x80)
        (if ?n = 0xF4 then 0x8F else 0xBF)"
      unfolding completes_def
    proof (intro allI impI)
      fix xs v
      assume xs: "length xs = 3" and rest: "between (if ?n = 0xF0 then 0x90 else 0x80)
          (if ?n = 0xF4 then 0x8F else 0xBF) (hd xs)" "\<forall>x \<in> set (tl xs). between 0x80 0xBF x"
        "utf8_valid v"
      from length_eq_3 [OF xs] obtain c d e where "xs = [c, d, e]"
        by blast
      with rest 4 show "utf8_valid ([b] @ xs @ v)"
        by (simp add: Let_def)
    qed
    ultimately show ?thesis
      by (intro lead) simp_all
  next
    case 5
    then show ?thesis
      by (intro bad) (auto simp: utf8_start_def Let_def)
  qed
qed

lemma utf8_run_valid: "utf8_valid (utf8_run utf8_idle s)"
proof (induction "length s" arbitrary: s rule: less_induct)
  case less
  show ?case
  proof (cases s)
    case Nil
    then show ?thesis by (simp add: utf8_run_Nil)
  next
    case (Cons b bs)
    have rest: "utf8_valid (utf8_run utf8_idle t)" if "length t \<le> length bs" for t
      using less.hyps [of t] that by (simp add: Cons)
    show ?thesis
    proof (cases b rule: utf8_start_cases)
      case one
      with rest [of bs] show ?thesis
        by (simp add: Cons utf8_run_one)
    next
      case (lead needed lower upper)
      from utf8_run_valid_from [OF rest lead(2,3)] lead(1) show ?thesis
        by (simp add: Cons utf8_idle_def)
    next
      case bad
      with utf8_valid_replacement [OF rest [of bs]] show ?thesis
        by (simp add: Cons utf8_idle_def)
    qed
  qed
qed

lemma utf8_text_fixed: "(utf8_text s = s) = utf8_valid s"
  using utf8_run_valid [of s] utf8_valid_run [of s] by (auto simp: utf8_text_def)

subsection \<open>Paths\<close>

lemma path_join_literals:
  "path_join r [''app/router.js''] = r @ [''app'', ''router.js'']"
  "path_join r [''app/templates/application.hbs''] = r @ [''app'', ''templates'', ''application.hbs'']"
  "path_join r [''app/templates/docs''] = r @ [''app'', ''templates'', ''docs'']"
  "path_join r [''app/templates/docs.hbs''] = r @ [''app'', ''templates'', ''docs.hbs'']"
  "path_join r [''index.md''] = r @ [''index.md'']"
  "path_join r [''README.md''] = r @ [''README.md'']"
  "path_join r [''package.json''] = r @ [''package.json'']"
  "path_join r [testApp, ''/router.js''] = r @ [''test-app'', ''app'', ''router.js'']"
  "path_join r [testApp, ''/templates/application.hbs''] = r @ [''test-app'', ''app'', ''templates'', ''application.hbs'']"
  "path_join r [testApp, ''/templates/docs''] = r @ [''test-app'', ''app'', ''templates'', ''docs'']"
  "path_join r [testApp, ''/templates/docs.hbs''] = r @ [''test-app'', ''app'', ''templates'', ''docs.hbs'']"
  "path_join r [testApp, ''/templates/index.hbs''] = r @ [''test-app'', ''app'', ''templates'', ''index.hbs'']"
  by (simp_all add: path_join_def step_segment_def testApp_def)

lemma path_resolve_addon: "path_resolve r [''..'', ''addon''] = butlast r @ [''addon'']"
  by (simp add: path_resolve_def step_segment_def)

lemma path_dirname_snoc: "path_dirname (p @ [x]) = p"
  by (simp add: path_dirname_def)

subsection \<open>Primitives\<close>

lemma existsSync_stat: "existsSync p w = (stat p (files w) \<noteq> None)"
  by (auto simp: existsSync_def stat_def split: sum.splits node.splits)

lemma writeFileSync_Inr:
  assumes "writeFileSync g c w = (Inr u, w')"
  shows "console w' = console w"
    and "stat q (files w') = (if q = g then Some (IsFile c) else stat q (files w))"
  using assms stat_store_file [of g c "files w" _ q]
  by (auto simp: writeFileSync_def split: sum.splits)

lemma writeFileSync_Inl:
  assumes "writeFileSync g c w = (Inl e, w')"
  shows "w' = w"
    and "\<exists>code. e = SystemError code ''open'' g \<and> store_file g c (files w) = Inl code"
  using assms by (auto simp: writeFileSync_def split: sum.splits)

lemma writeFileSync_same:
  "stat g (files w) = Some (IsFile c) \<Longrightarrow> writeFileSync g c w = (Inr (), w)"
  by (simp add: writeFileSync_def store_file_same)

lemma writeFileSync_ok:
  assumes "stat d (files w) = Some IsDir" "stat (d @ [x]) (files w) \<noteq> Some IsDir"
  shows "\<exists>w'. writeFileSync (d @ [x]) c w = (Inr (), w')"
  using store_file_ok [OF assms, of c] by (auto simp: writeFileSync_def)

lemma ensureDir_Inr:
  assumes "ensureDir d w = (Inr u, w')"
  shows "console w' = console w"
    and "stat d (files w') \<noteq> None"
    and "stat q (files w') = (if stat d (files w) = None \<and> prefix q d then Some IsDir else stat q (files w))"
  using assms stat_make_dirs [of d "files w" _ q] stat_make_dirs [of d "files w" _ d]
  by (auto simp: ensureDir_def existsSync_stat mkdirSync_recursive_def js_return_def
      split: if_splits sum.splits)

lemma ensureDir_Inl:
  assumes "ensureDir d w = (Inl e, w')"
  shows "w' = w" and "e = SystemError ENOTDIR ''mkdir'' d" and "stat d (files w) = None"
    and "\<exists>q c. strict_prefix q d \<and> stat q (files w) = Some (IsFile c)"
  using assms make_dirs_error [of d "files w"]
  by (auto simp: ensureDir_def existsSync_stat mkdirSync_recursive_def js_return_def
      split: if_splits sum.splits)

lemma ensureDir_exists:
  "stat d (files w) \<noteq> None \<Longrightarrow> ensureDir d w = (Inr (), w)"
  by (auto simp: ensureDir_def existsSync_stat js_return_def)

lemma can_hold_iff: "can_hold d t = (\<forall>q c. prefix q d \<longrightarrow> stat q t \<noteq> Some (IsFile c))"
  by (auto simp: can_hold_def is_file_def split: option.splits entry.splits)

lemma ensureDir_ok:
  assumes "can_hold d (files w)"
  shows "\<exists>w'. ensureDir d w = (Inr (), w') \<and> stat d (files w') = Some IsDir"
proof (cases "stat d (files w)")
  case None
  from assms have "\<exists>t'. make_dirs d (files w) = Inr t'"
    by (intro make_dirs_ok) (simp add: can_hold_iff)
  then obtain t' where t': "make_dirs d (files w) = Inr t'" ..
  with None stat_make_dirs [OF t', of d] show ?thesis
    by (simp add: ensureDir_def existsSync_stat mkdirSync_recursive_def)
next
  case (Some k)
  with assms have "k = IsDir"
    by (cases k) (auto simp: can_hold_iff)
  with Some show ?thesis
    by (simp add: ensureDir_exists)
qed

subsection \<open>Trimming\<close>

lemma strip_leading_stop:
  assumes "\<And>w. w \<in> set codes \<Longrightarrow> w \<noteq> [] \<Longrightarrow> hd w \<noteq> c"
  shows "strip_leading codes (c # s) = c # s"
proof -
  have "\<not> (w \<noteq> [] \<and> prefix w (c # s))" if "w \<in> set codes" for w
    using assms [OF that] by (cases w) auto
  then have "find (\<lambda>w. w \<noteq> [] \<and> prefix w (c # s)) codes = None"
    by (simp add: find_None_iff)
  then show ?thesis
    by (subst strip_leading.simps) simp
qed

lemma strip_leading_Nil: "strip_leading codes [] = []"
proof -
  have "find (\<lambda>w. w \<noteq> [] \<and> prefix w []) codes = None"
    by (auto simp: find_None_iff)
  then show ?thesis
    by (subst strip_leading.simps) simp
qed

lemma strip_leading_step:
  assumes "[c] \<in> set codes" and "\<And>w. w \<in> set codes \<Longrightarrow> w \<noteq> [] \<Longrightarrow> hd w = c \<Longrightarrow> w = [c]"
  shows "strip_leading codes (c # s) = strip_leading codes s"
proof -
  have "\<exists>w. find (\<lambda>w. w \<noteq> [] \<and> prefix w (c # s)) codes = Some w"
    using assms(1) by (cases "find (\<lambda>w. w \<noteq> [] \<and> prefix w (c # s)) codes") (auto simp: find_None_iff)
  then obtain w where w: "find (\<lambda>w. w \<noteq> [] \<and> prefix w (c # s)) codes = Some w" ..
  then have in_codes: "w \<in> set codes" and nonempty: "w \<noteq> []" and pre: "prefix w (c # s)"
    by (auto simp: find_Some_iff)
  from nonempty pre have "hd w = c"
    by (auto simp: neq_Nil_conv)
  with in_codes nonempty have "w = [c]"
    by (rule assms(2))
  with w show ?thesis
    by (subst strip_leading.simps) simp
qed

lemma strip_leading_spaces:
  assumes "set pre \<subseteq> ascii_space"
  shows "strip_leading white_space (pre @ s) = strip_leading white_space s"
    and "strip_leading (map rev white_space) (pre @ s) = strip_leading (map rev white_space) s"
  using assms
proof (induction pre)
  case Nil
  { case 1 show ?case by simp }
  { case 2 show ?case by simp }
next
  case (Cons c pre)
  { case 1
    then have c: "c \<in> ascii_space" and pre: "set pre \<subseteq> ascii_space" by auto
    have "strip_leading white_space (c # pre @ s) = strip_leading white_space (pre @ s)"
      using c by (intro strip_leading_step) (auto simp: white_space_def ascii_space_def)
    with Cons.IH(1) [OF pre] show ?case by simp }
  { case 2
    then have c: "c \<in> ascii_space" and pre: "set pre \<subseteq> ascii_space" by auto
    have "strip_leading (map rev white_space) (c # pre @ s) = strip_leading (map rev white_space) (pre @ s)"
      using c by (intro strip_leading_step) (auto simp: white_space_def ascii_space_def)
    with Cons.IH(2) [OF pre] show ?case by simp }
qed

lemma trim_core:
  assumes "set pre \<subseteq> ascii_space" "set post \<subseteq> ascii_space" "body \<noteq> []"
    and "hd body \<notin> hd ` set white_space" "last body \<notin> last ` set white_space"
  shows "trim (pre @ body @ post) = body"
proof -
  obtain c rest where body: "body = c # rest"
    using assms(3) by (cases body) auto
  obtain front z where body': "body = front @ [z]"
    using assms(3) by (cases body rule: rev_cases) auto
  have "strip_leading white_space (pre @ body @ post) = strip_leading white_space (body @ post)"
    by (rule strip_leading_spaces(1) [OF assms(1)])
  also have "\<dots> = body @ post"
    unfolding body using assms(4) by (simp add: body) (rule strip_leading_stop, auto)
  finally have 1: "strip_leading white_space (pre @ body @ post) = body @ post" .
  have "set (rev post) \<subseteq> ascii_space"
    using assms(2) by simp
  then have "strip_leading (map rev white_space) (rev post @ rev body) =
      strip_leading (map rev white_space) (rev body)"
    by (rule strip_leading_spaces(2))
  also have "\<dots> = rev body"
    unfolding body' using assms(5)
    by (simp add: body') (rule strip_leading_stop, auto simp: hd_rev white_space_def)
  finally show ?thesis
    by (simp add: trim_def 1)
qed

lemma trim_applicationContent: "trim (applicationContent n r) = applicationText n r"
proof -
  have "applicationContent n r = [CHR 0x0A] @ applicationText n r @ [CHR 0x0A, CHR 0x20, CHR 0x20]"
    by (simp add: applicationContent_def applicationText_def join_lines_def)
  moreover have "trim ([CHR 0x0A] @ applicationText n r @ [CHR 0x0A, CHR 0x20, CHR 0x20]) = applicationText n r"
    by (rule trim_core) (simp_all add: ascii_space_def applicationText_def join_lines_def white_space_def)
  ultimately show ?thesis by simp
qed

lemma trim_indexLayout: "trim indexLayout = indexText"
proof -
  have "indexLayout = [] @ indexText @ [CHR 0x0A, CHR 0x20, CHR 0x20]"
    by (simp add: indexLayout_def indexText_def join_lines_def)
  moreover have "trim ([] @ indexText @ [CHR 0x0A, CHR 0x20, CHR 0x20]) = indexText"
    by (rule trim_core) (simp_all add: ascii_space_def indexText_def join_lines_def white_space_def)
  ultimately show ?thesis by simp
qed

lemma trim_docsLayout: "trim docsLayout = docsText"
proof -
  have "docsLayout = [CHR 0x0A] @ docsText @ [CHR 0x0A, CHR 0x20, CHR 0x20]"
    by (simp add: docsLayout_def docsText_def join_lines_def)
  moreover have "trim ([CHR 0x0A] @ docsText @ [CHR 0x0A, CHR 0x20, CHR 0x20]) = docsText"
    by (rule trim_core) (simp_all add: ascii_space_def docsText_def join_lines_def white_space_def)
  ultimately show ?thesis by simp
qed

lemma stat_butlast:
  assumes "stat g t \<noteq> None" "g \<noteq> []"
  shows "stat (butlast g) t = Some IsDir"
proof -
  from assms(2) obtain d x where "g = d @ [x]"
    by (cases g rule: rev_cases) auto
  with assms(1) show ?thesis
    by (simp add: stat_parent)
qed

lemma writeFileSync_possible:
  assumes "g \<noteq> []" "stat (butlast g) (files w) = Some IsDir" "stat g (files w) \<noteq> Some IsDir"
  shows "\<exists>w'. writeFileSync g c w = (Inr (), w')"
proof -
  from assms(1) obtain d x where "g = d @ [x]"
    by (cases g rule: rev_cases) auto
  with assms(2,3) show ?thesis
    by (simp add: writeFileSync_ok)
qed

lemma andThen_Inr: "m w = (Inr x, w') \<Longrightarrow> andThen m f w = f x w'"
  by (simp add: andThen_def)

lemma andThen_Inl: "m w = (Inl e, w') \<Longrightarrow> andThen m f w = (Inl e, w')"
  by (simp add: andThen_def)

section \<open>The emitters\<close>

subsection \<open>Router\<close>

lemma updateRouter_absent:
  assumes "stat (root @ [''app'', ''router.js'']) (files w) = None"
  shows "updateRouter root w =
    (Inr (), w\<lparr>console := console w @
       [(Warn, warning_sign @ ''  router.js not found, skipping router setup.'')]\<rparr>)"
  using assms
  by (simp add: updateRouter_def Let_def path_join_literals existsSync_stat console_warn_def)

lemma updateRouter_present:
  assumes "stat (root @ [''app'', ''router.js'']) (files w) = Some (IsFile old)"
  shows "\<exists>w'. updateRouter root w = (Inr (), w') \<and>
    stat (root @ [''app'', ''router.js'']) (files w') = Some (IsFile routerContent) \<and>
    (\<forall>q. q \<noteq> root @ [''app'', ''router.js''] \<longrightarrow> stat q (files w') = stat q (files w)) \<and>
    console w' = console w @ [(Log, check_mark @ '' Updated router.js'')]"
proof -
  let ?g = "root @ [''app'', ''router.js'']"
  from assms have "stat (butlast ?g) (files w) = Some IsDir"
    by (intro stat_butlast) simp_all
  moreover from assms have "stat ?g (files w) \<noteq> Some IsDir" by simp
  ultimately obtain w1 where w1: "writeFileSync ?g routerContent w = (Inr (), w1)"
    using writeFileSync_possible [of ?g w routerContent] by auto
  have "updateRouter root w = (Inr (), w1\<lparr>console := console w1 @ [(Log, check_mark @ '' Updated router.js'')]\<rparr>)"
    using assms w1
    by (simp add: updateRouter_def Let_def path_join_literals existsSync_stat andThen_def console_log_def)
  with writeFileSync_Inr [OF w1] show ?thesis
    by simp
qed

lemma updateRouter_part000: "updateRouter_part000 addonRoot = updateRouter (addonRoot @ [''test-app''])"
  by (simp add: updateRouter_part000_def updateRouter_def Let_def path_join_literals)

text \<open>
  Claim C6. The router emitter: when \<^verbatim>\<open>app/router.js\<close> is not there, the emitter
  logs its warning and changes nothing in the tree, so no file appears at that path; when
  it is there as a file, whatever its text was, the emitter returns normally and the file
  holds exactly the router template, every other path being as before. Both files of the
  repository behave so, each at its own router path.
\<close>

theorem router_emitter:
  "(stat (root @ [''app'', ''router.js'']) (files w) = None \<longrightarrow>
      updateRouter root w =
        (Inr (), w\<lparr>console := console w @
           [(Warn, warning_sign @ ''  router.js not found, skipping router setup.'')]\<rparr>)) \<and>
   (stat (root @ [''app'', ''router.js'']) (files w) = Some (IsFile old) \<longrightarrow>
      (\<exists>w'. updateRouter root w = (Inr (), w') \<and>
         stat (root @ [''app'', ''router.js'']) (files w') = Some (IsFile routerContent) \<and>
         (\<forall>q. q \<noteq> root @ [''app'', ''router.js''] \<longrightarrow> stat q (files w') = stat q (files w)))) \<and>
   (stat (addonRoot @ [''test-app'', ''app'', ''router.js'']) (files w) = None \<longrightarrow>
      updateRouter_part000 addonRoot w =
        (Inr (), w\<lparr>console := console w @
           [(Warn, warning_sign @ ''  router.js not found, skipping router setup.'')]\<rparr>)) \<and>
   (stat (addonRoot @ [''test-app'', ''app'', ''router.js'']) (files w) = Some (IsFile old) \<longrightarrow>
      (\<exists>w'. updateRouter_part000 addonRoot w = (Inr (), w') \<and>
         stat (addonRoot @ [''test-app'', ''app'', ''router.js'']) (files w') = Some (IsFile routerContent) \<and>
         (\<forall>q. q \<noteq> addonRoot @ [''test-app'', ''app'', ''router.js''] \<longrightarrow>
            stat q (files w') = stat q (files w))))"
  using updateRouter_absent [of root w] updateRouter_present [of root w old]
    updateRouter_absent [of "addonRoot @ [''test-app'']" w]
    updateRouter_present [of "addonRoot @ [''test-app'']" w old]
  by (simp add: updateRouter_part000) blast

theorem router_emitter_witness:
  "updateRouter [''proj'', ''test-app''] (world_of bare_tree) =
     (Inr (), (world_of bare_tree)\<lparr>console := console (world_of bare_tree) @
        [(Warn, warning_sign @ ''  router.js not found, skipping router setup.'')]\<rparr>) \<and>
   (\<exists>w'. updateRouter [''proj'', ''test-app''] (world_of demo_tree) = (Inr (), w') \<and>
      stat [''proj'', ''test-app'', ''app'', ''router.js''] (files w') = Some (IsFile routerContent)) \<and>
   updateRouter_part000 [''proj'', ''addon''] (world_of bare_tree) =
     (Inr (), (world_of bare_tree)\<lparr>console := console (world_of bare_tree) @
        [(Warn, warning_sign @ ''  router.js not found, skipping router setup.'')]\<rparr>) \<and>
   (\<exists>w'. updateRouter_part000 [''proj'', ''addon''] (world_of nested_tree) = (Inr (), w') \<and>
      stat [''proj'', ''addon'', ''test-app'', ''app'', ''router.js''] (files w') =
        Some (IsFile routerContent))"
proof -
  have absent: "stat ([''proj'', ''test-app''] @ [''app'', ''router.js'']) (files (world_of bare_tree)) = None"
    "stat ([''proj'', ''addon''] @ [''test-app'', ''app'', ''router.js'']) (files (world_of bare_tree)) = None"
    by (simp_all add: stat_def bare_tree_def world_of_def)
  have present:
    "stat ([''proj'', ''test-app''] @ [''app'', ''router.js'']) (files (world_of demo_tree)) =
       Some (IsFile ''old router'')"
    "stat ([''proj'', ''addon''] @ [''test-app'', ''app'', ''router.js'']) (files (world_of nested_tree)) =
       Some (IsFile ''old router'')"
    by (simp_all add: stat_def demo_tree_def nested_tree_def world_of_def)
  from absent present
    router_emitter [of "[''proj'', ''test-app'']" "world_of bare_tree" "''old router''" "[''proj'', ''addon'']"]
    router_emitter [of "[''proj'', ''test-app'']" "world_of demo_tree" "''old router''" "[''proj'', ''addon'']"]
    router_emitter [of "[''proj'', ''test-app'']" "world_of nested_tree" "''old router''" "[''proj'', ''addon'']"]
  show ?thesis
    by auto
qed

subsection \<open>Application template\<close>

lemma writable_snoc:
  "writable (d @ [x]) t = (can_hold d t \<and> stat (d @ [x]) t \<noteq> Some IsDir)"
  by (simp add: writable_def path_dirname_def)

lemma write_after_ensureDir:
  assumes "can_hold d (files w)" "stat (d @ [x]) (files w) \<noteq> Some IsDir"
  shows "\<exists>w1 w2. ensureDir d w = (Inr (), w1) \<and> console w1 = console w \<and>
    (\<forall>q. stat q (files w1) =
       (if stat d (files w) = None \<and> prefix q d then Some IsDir else stat q (files w))) \<and>
    writeFileSync (d @ [x]) c w1 = (Inr (), w2) \<and> console w2 = console w \<and>
    (\<forall>q. stat q (files w2) = (if q = d @ [x] then Some (IsFile c) else stat q (files w1)))"
proof -
  from ensureDir_ok [OF assms(1)] obtain w1 where
    w1: "ensureDir d w = (Inr (), w1)" and dir: "stat d (files w1) = Some IsDir"
    by blast
  note e = ensureDir_Inr [OF w1]
  from assms(2) have "stat (d @ [x]) (files w1) \<noteq> Some IsDir"
    by (simp add: e(3))
  with dir obtain w2 where w2: "writeFileSync (d @ [x]) c w1 = (Inr (), w2)"
    using writeFileSync_ok by blast
  note f = writeFileSync_Inr [OF w2]
  show ?thesis
    using w1 w2 e(1) e(3) f by auto
qed

lemma updateApplicationTemplate_ok:
  assumes "writable (root @ [''app'', ''templates'', ''application.hbs'']) (files w)"
    and "js_to_string addonName = Inr nameText" "js_to_string repoUrl = Inr repoText"
  shows "\<exists>w'. updateApplicationTemplate root addonName repoUrl w = (Inr (), w') \<and>
    stat (root @ [''app'', ''templates'', ''application.hbs'']) (files w') =
      Some (IsFile (applicationText nameText repoText)) \<and>
    console w' = console w @ [(Log, check_mark @ '' Updated application.hbs'')]"
proof -
  let ?d = "root @ [''app'', ''templates'']"
  from assms(1) have "can_hold ?d (files w)" "stat (?d @ [''application.hbs'']) (files w) \<noteq> Some IsDir"
    using writable_snoc [of ?d "''application.hbs''" "files w"] by simp_all
  from write_after_ensureDir [OF this, of "applicationText nameText repoText"]
  obtain w1 w2 where "ensureDir ?d w = (Inr (), w1)"
    and "writeFileSync (?d @ [''application.hbs'']) (applicationText nameText repoText) w1 = (Inr (), w2)"
    and "console w2 = console w"
    and "\<forall>q. stat q (files w2) = (if q = ?d @ [''application.hbs''] then Some (IsFile (applicationText nameText repoText)) else stat q (files w1))"
    by blast
  then show ?thesis
    using assms(2,3)
    by (simp add: updateApplicationTemplate_def Let_def path_join_literals path_dirname_def
        butlast_append andThen_def js_eval_def js_return_def trim_applicationContent console_log_def)
qed

lemma updateApplicationTemplate_part000:
  "updateApplicationTemplate_part000 addonRoot = updateApplicationTemplate (addonRoot @ [''test-app''])"
  by (simp add: updateApplicationTemplate_part000_def updateApplicationTemplate_def Let_def
      path_join_literals fun_eq_iff)

lemma dollars_applicationText:
  "filter (\<lambda>c. c = CHR ''$'') (applicationText n r) =
     filter (\<lambda>c. c = CHR ''$'') n @ filter (\<lambda>c. c = CHR ''$'') n @ filter (\<lambda>c. c = CHR ''$'') r"
  by (simp add: applicationText_def join_lines_def)

text \<open>
  Claim C3, as amended. Where \<^verbatim>\<open>app/templates\<close> exists as a directory or can be
  created, \<^verbatim>\<open>application.hbs\<close> is not a directory, and the name and the repository
  value convert to text, the application template emitter returns normally and the file
  holds the template with the two texts in place. A string converts to itself and an absent
  field reads as \<^verbatim>\<open>undefined\<close>, which converts to the text \<^verbatim>\<open>undefined\<close>. The
  written text has a dollar sign only where the name or the repository text has one, so no
  \<^verbatim>\<open>${...}\<close> of the template is left in it. Both files of the repository behave so,
  each at its own path.
\<close>

theorem application_emitter:
  assumes "js_to_string addonName = Inr nameText" "js_to_string repoUrl = Inr repoText"
  shows
    "(writable (root @ [''app'', ''templates'', ''application.hbs'']) (files w) \<longrightarrow>
        (\<exists>w'. updateApplicationTemplate root addonName repoUrl w = (Inr (), w') \<and>
           stat (root @ [''app'', ''templates'', ''application.hbs'']) (files w') =
             Some (IsFile (applicationText nameText repoText)))) \<and>
     (writable (addonRoot @ [''test-app'', ''app'', ''templates'', ''application.hbs'']) (files w) \<longrightarrow>
        (\<exists>w'. updateApplicationTemplate_part000 addonRoot addonName repoUrl w = (Inr (), w') \<and>
           stat (addonRoot @ [''test-app'', ''app'', ''templates'', ''application.hbs'']) (files w') =
             Some (IsFile (applicationText nameText repoText)))) \<and>
     js_to_string (JString s) = Inr s \<and>
     js_to_string JUndefined = Inr ''undefined'' \<and>
     js_get (JObject ps) k = Inr (case map_of ps k of None \<Rightarrow> JUndefined | Some v \<Rightarrow> v) \<and>
     filter (\<lambda>c. c = CHR ''$'') (applicationText nameText repoText) =
       filter (\<lambda>c. c = CHR ''$'') nameText @ filter (\<lambda>c. c = CHR ''$'') nameText @
       filter (\<lambda>c. c = CHR ''$'') repoText"
  using updateApplicationTemplate_ok [OF _ assms, of root w]
    updateApplicationTemplate_ok [OF _ assms, of "addonRoot @ [''test-app'']" w]
  by (simp add: updateApplicationTemplate_part000 dollars_applicationText js_get_def) blast

theorem application_emitter_witness:
  "(\<exists>w'. updateApplicationTemplate [''proj'', ''test-app''] (JString ''Foo'') JUndefined
            (world_of demo_tree) = (Inr (), w') \<and>
      stat [''proj'', ''test-app'', ''app'', ''templates'', ''application.hbs''] (files w') =
        Some (IsFile (applicationText ''Foo'' ''undefined''))) \<and>
   (\<exists>w'. updateApplicationTemplate_part000 [''proj'', ''addon''] (JString ''Foo'') JUndefined
            (world_of nested_tree) = (Inr (), w') \<and>
      stat [''proj'', ''addon'', ''test-app'', ''app'', ''templates'', ''application.hbs''] (files w') =
        Some (IsFile (applicationText ''Foo'' ''undefined''))) \<and>
   js_get (JObject [(''name'', JString ''Foo'')]) ''repository'' = Inr JUndefined"
proof -
  have render: "js_to_string (JString ''Foo'') = Inr ''Foo''" "js_to_string JUndefined = Inr ''undefined''"
    by simp_all
  have clear:
    "writable ([''proj'', ''test-app''] @ [''app'', ''templates'', ''application.hbs''])
       (files (world_of demo_tree))"
    "writable ([''proj'', ''addon''] @ [''test-app'', ''app'', ''templates'', ''application.hbs''])
       (files (world_of nested_tree))"
    by (simp_all add: writable_def can_hold_def is_file_def path_dirname_def stat_def
        demo_tree_def nested_tree_def world_of_def)
  from clear
    application_emitter [OF render, of "[''proj'', ''test-app'']" "world_of demo_tree"
      "[''proj'', ''addon'']" "''Foo''" "[(''name'', JString ''Foo'')]" "''repository''"]
    application_emitter [OF render, of "[''proj'', ''test-app'']" "world_of nested_tree"
      "[''proj'', ''addon'']" "''Foo''" "[(''name'', JString ''Foo'')]" "''repository''"]
  show ?thesis
    by simp
qed

text \<open>
  The claim as stated fails where a regular file stands at \<^verbatim>\<open>test-app/app\<close>:
  \<^verbatim>\<open>mkdirSync\<close> throws, nothing is written.
\<close>

theorem application_emitter_counterexample:
  "updateApplicationTemplate [''proj'', ''test-app''] (JString ''Foo'') (JString ''https://x'')
     (world_of blocked_tree) =
   (Inl (SystemError ENOTDIR ''mkdir'' [''proj'', ''test-app'', ''app'', ''templates'']),
    world_of blocked_tree)"
  by (simp add: updateApplicationTemplate_def Let_def path_join_def step_segment_def
      path_dirname_def andThen_def ensureDir_def existsSync_def mkdirSync_recursive_def
      blocked_tree_def world_of_def)

subsection \<open>Docs index\<close>

lemma readFileSync_file:
  "stat p (files w) = Some (IsFile c) \<Longrightarrow> readFileSync p w = (Inr (utf8_text c), w)"
  by (simp add: readFileSync_def node_at_file)

lemma readFileSync_dir:
  "stat p (files w) = Some IsDir \<Longrightarrow> readFileSync p w = (Inl (SystemError EISDIR ''read'' p), w)"
  using node_at_dir [of p "files w"] by (auto simp: readFileSync_def)

lemma createDocsIndex_present:
  assumes "stat (addonRoot @ [''README.md'']) (files w) = Some (IsFile c)"
    and "writable (root @ [''app'', ''templates'', ''docs'', ''index.md'']) (files w)"
  shows "\<exists>w'. createDocsIndex root addonRoot w = (Inr (), w') \<and>
    stat (root @ [''app'', ''templates'', ''docs'', ''index.md'']) (files w') =
      Some (IsFile (utf8_text c)) \<and>
    console w' = console w @ [(Log, check_mark @ '' Created docs/index.md from README.md'')]"
proof -
  let ?d = "root @ [''app'', ''templates'', ''docs'']"
  let ?r = "addonRoot @ [''README.md'']"
  from assms(2) have hold: "can_hold ?d (files w)"
    and nodir: "stat (?d @ [''index.md'']) (files w) \<noteq> Some IsDir"
    using writable_snoc [of ?d "''index.md''" "files w"] by simp_all
  from write_after_ensureDir [OF hold nodir, of "utf8_text c"]
  obtain w1 w2 where w1: "ensureDir ?d w = (Inr (), w1)"
    and s1: "\<And>q. stat q (files w1) =
       (if stat ?d (files w) = None \<and> prefix q ?d then Some IsDir else stat q (files w))"
    and w2: "writeFileSync (?d @ [''index.md'']) (utf8_text c) w1 = (Inr (), w2)"
    and c2: "console w2 = console w"
    and s2: "\<And>q. stat q (files w2) =
       (if q = ?d @ [''index.md''] then Some (IsFile (utf8_text c)) else stat q (files w1))"
    by blast
  from hold assms(1) have "\<not> prefix ?r ?d"
    by (auto simp: can_hold_iff)
  with assms(1) have r1: "stat ?r (files w1) = Some (IsFile c)"
    by (simp add: s1)
  then have "readFileSync ?r w1 = (Inr (utf8_text c), w1)"
    by (rule readFileSync_file)
  with w1 w2 r1 c2 s2 show ?thesis
    by (simp add: createDocsIndex_def Let_def path_join_literals andThen_def existsSync_stat
        console_log_def)
qed

lemma createDocsIndex_absent:
  assumes "stat (addonRoot @ [''README.md'']) (files w) = None"
    and "\<not> prefix (addonRoot @ [''README.md'']) (root @ [''app'', ''templates'', ''docs''])"
    and "writable (root @ [''app'', ''templates'', ''docs'', ''index.md'']) (files w)"
  shows "\<exists>w'. createDocsIndex root addonRoot w = (Inr (), w') \<and>
    stat (root @ [''app'', ''templates'', ''docs'', ''index.md'']) (files w') =
      Some (IsFile placeholderContent) \<and>
    console w' = console w @
      [(Warn, warning_sign @ '' README.md not found, creating a placeholder index.md.'')]"
proof -
  let ?d = "root @ [''app'', ''templates'', ''docs'']"
  let ?r = "addonRoot @ [''README.md'']"
  let ?m = "(Warn, warning_sign @ '' README.md not found, creating a placeholder index.md.'')"
  from assms(3) have hold: "can_hold ?d (files w)"
    and nodir: "stat (?d @ [''index.md'']) (files w) \<noteq> Some IsDir"
    using writable_snoc [of ?d "''index.md''" "files w"] by simp_all
  from ensureDir_ok [OF hold] obtain w1 where
    w1: "ensureDir ?d w = (Inr (), w1)" and dir: "stat ?d (files w1) = Some IsDir"
    by blast
  note e = ensureDir_Inr [OF w1]
  let ?w1 = "w1\<lparr>console := console w1 @ [?m]\<rparr>"
  from assms(1,2) have r1: "stat ?r (files w1) = None"
    by (simp add: e(3))
  from nodir have "stat (?d @ [''index.md'']) (files ?w1) \<noteq> Some IsDir"
    by (simp add: e(3))
  moreover from dir have "stat ?d (files ?w1) = Some IsDir" by simp
  ultimately obtain w2 where w2: "writeFileSync (?d @ [''index.md'']) placeholderContent ?w1 = (Inr (), w2)"
    using writeFileSync_ok by blast
  note f = writeFileSync_Inr [OF w2]
  from w1 r1 w2 f e(1) show ?thesis
    by (simp add: createDocsIndex_def Let_def path_join_literals andThen_def existsSync_stat
        console_warn_def)
qed

lemma createDocsIndex_part000:
  "createDocsIndex_part000 addonRoot = createDocsIndex (addonRoot @ [''test-app'']) addonRoot"
  by (simp add: createDocsIndex_part000_def createDocsIndex_def Let_def path_join_literals)

lemma readme_not_above_docs:
  "\<not> prefix (path_resolve root [''..'', ''addon''] @ [''README.md'']) (root @ [''app'', ''templates'', ''docs''])"
  "\<not> prefix (addonRoot @ [''README.md'']) ((addonRoot @ [''test-app'']) @ [''app'', ''templates'', ''docs''])"
  by (cases root rule: rev_cases; simp add: path_resolve_addon)+

text \<open>
  Claim C4, as amended. Where \<^verbatim>\<open>README.md\<close> is a file with bytes \<open>c\<close> and
  \<^verbatim>\<open>docs/index.md\<close> can be written (no regular file at
  \<^verbatim>\<open>app/templates/docs\<close> or above it, no directory at \<^verbatim>\<open>index.md\<close>), the docs
  index emitter returns normally and \<^verbatim>\<open>index.md\<close> holds \<open>c\<close> decoded as UTF-8 and
  encoded again. These are the bytes \<open>c\<close>, an exact copy, when \<open>c\<close> is well-formed UTF-8,
  and only then: in place of every ill-formed sequence of \<open>c\<close> the copy has the three
  bytes of U+FFFD. Both files of the repository behave so, each at its own path.
\<close>

theorem docs_index_copy:
  assumes "stat (addonRoot @ [''README.md'']) (files w) = Some (IsFile c)"
  shows
    "(writable (root @ [''app'', ''templates'', ''docs'', ''index.md'']) (files w) \<longrightarrow>
        (\<exists>w'. createDocsIndex root addonRoot w = (Inr (), w') \<and>
           stat (root @ [''app'', ''templates'', ''docs'', ''index.md'']) (files w') =
             Some (IsFile (utf8_text c)))) \<and>
     (writable (addonRoot @ [''test-app'', ''app'', ''templates'', ''docs'', ''index.md'']) (files w) \<longrightarrow>
        (\<exists>w'. createDocsIndex_part000 addonRoot w = (Inr (), w') \<and>
           stat (addonRoot @ [''test-app'', ''app'', ''templates'', ''docs'', ''index.md'']) (files w') =
             Some (IsFile (utf8_text c)))) \<and>
     (utf8_text c = c) = utf8_valid c \<and>
     utf8_valid (utf8_text c) \<and>
     utf8_text [CHR 0xFF] = replacement_character \<and>
     utf8_text ([CHR 0xE2, CHR 0x82] @ ''A'') = replacement_character @ ''A''"
proof -
  have "utf8_text [CHR 0xFF] = replacement_character"
    "utf8_text ([CHR 0xE2, CHR 0x82] @ ''A'') = replacement_character @ ''A''"
    by (simp_all add: utf8_text_def utf8_idle_def utf8_start_def)
  moreover have "utf8_valid (utf8_text c)"
    by (simp add: utf8_text_def utf8_run_valid)
  moreover note utf8_text_fixed [of c]
  moreover note createDocsIndex_present [OF assms, of root]
    createDocsIndex_present [OF assms, of "addonRoot @ [''test-app'']"]
  ultimately show ?thesis
    by (simp add: createDocsIndex_part000) blast
qed

theorem docs_index_copy_witness:
  "(\<exists>w'. createDocsIndex [''proj'', ''test-app''] [''proj'', ''addon''] (world_of demo_tree) =
            (Inr (), w') \<and>
      stat [''proj'', ''test-app'', ''app'', ''templates'', ''docs'', ''index.md''] (files w') =
        Some (IsFile ''# Foo'')) \<and>
   (\<exists>w'. createDocsIndex_part000 [''proj'', ''addon''] (world_of nested_tree) = (Inr (), w') \<and>
      stat [''proj'', ''addon'', ''test-app'', ''app'', ''templates'', ''docs'', ''index.md'']
        (files w') = Some (IsFile ''# Foo'')) \<and>
   (\<exists>w'. createDocsIndex_part000 [''proj'', ''addon''] (world_of accented_tree) = (Inr (), w') \<and>
      stat [''proj'', ''addon'', ''test-app'', ''app'', ''templates'', ''docs'', ''index.md'']
        (files w') = Some (IsFile [CHR ''#'', CHR '' '', CHR 0xC3, CHR 0xA9]))"
proof -
  have readme:
    "stat ([''proj'', ''addon''] @ [''README.md'']) (files (world_of demo_tree)) = Some (IsFile ''# Foo'')"
    "stat ([''proj'', ''addon''] @ [''README.md'']) (files (world_of nested_tree)) = Some (IsFile ''# Foo'')"
    "stat ([''proj'', ''addon''] @ [''README.md'']) (files (world_of accented_tree)) =
       Some (IsFile [CHR ''#'', CHR '' '', CHR 0xC3, CHR 0xA9])"
    by (simp_all add: stat_def demo_tree_def nested_tree_def accented_tree_def world_of_def)
  have clear:
    "writable ([''proj'', ''test-app''] @ [''app'', ''templates'', ''docs'', ''index.md''])
       (files (world_of demo_tree))"
    "writable ([''proj'', ''addon''] @ [''test-app'', ''app'', ''templates'', ''docs'', ''index.md''])
       (files (world_of nested_tree))"
    "writable ([''proj'', ''addon''] @ [''test-app'', ''app'', ''templates'', ''docs'', ''index.md''])
       (files (world_of accented_tree))"
    by (simp_all add: writable_def can_hold_def is_file_def path_dirname_def stat_def
        demo_tree_def nested_tree_def accented_tree_def world_of_def)
  have well_formed: "utf8_valid ''# Foo''" "utf8_valid [CHR ''#'', CHR '' '', CHR 0xC3, CHR 0xA9]"
    by (simp_all add: between_def)
  then have same: "utf8_text ''# Foo'' = ''# Foo''"
    "utf8_text [CHR ''#'', CHR '' '', CHR 0xC3, CHR 0xA9] = [CHR ''#'', CHR '' '', CHR 0xC3, CHR 0xA9]"
    by (simp_all only: utf8_text_valid)
  from clear
    docs_index_copy [OF readme(1), of "[''proj'', ''test-app'']"]
    docs_index_copy [OF readme(2), of "[''proj'', ''test-app'']"]
    docs_index_copy [OF readme(3), of "[''proj'', ''test-app'']"]
  show ?thesis
    by (simp add: same)
qed

text \<open>
  The claim as stated fails in two ways. Where \<^verbatim>\<open>README.md\<close> is there and a regular
  file stands at \<^verbatim>\<open>test-app/app\<close>, the emitter throws and writes nothing. Where
  \<^verbatim>\<open>README.md\<close> holds the one byte \<^verbatim>\<open>FF\<close>, which is not UTF-8, the emitter
  writes the three bytes \<^verbatim>\<open>EF BF BD\<close>: the copy is not the original.
\<close>

theorem docs_index_copy_counterexample:
  "stat [''proj'', ''addon'', ''README.md''] (files (world_of blocked_tree)) = Some (IsFile ''# Foo'') \<and>
   createDocsIndex [''proj'', ''test-app''] [''proj'', ''addon''] (world_of blocked_tree) =
     (Inl (SystemError ENOTDIR ''mkdir'' [''proj'', ''test-app'', ''app'', ''templates'', ''docs'']),
      world_of blocked_tree) \<and>
   stat [''proj'', ''addon'', ''README.md''] (files (world_of garbled_tree)) =
     Some (IsFile [CHR 0xFF]) \<and>
   fst (createDocsIndex [''proj'', ''test-app''] [''proj'', ''addon''] (world_of garbled_tree)) =
     Inr () \<and>
   stat [''proj'', ''test-app'', ''app'', ''templates'', ''docs'', ''index.md'']
     (files (snd (createDocsIndex [''proj'', ''test-app''] [''proj'', ''addon'']
        (world_of garbled_tree)))) =
     Some (IsFile [CHR 0xEF, CHR 0xBF, CHR 0xBD]) \<and>
   fst (createDocsIndex_part000 [''proj'', ''addon''] (world_of garbled_tree)) = Inr () \<and>
   stat [''proj'', ''addon'', ''test-app'', ''app'', ''templates'', ''docs'', ''index.md'']
     (files (snd (createDocsIndex_part000 [''proj'', ''addon''] (world_of garbled_tree)))) =
     Some (IsFile [CHR 0xEF, CHR 0xBF, CHR 0xBD])"
proof -
  have "stat [''proj'', ''addon'', ''README.md''] (files (world_of blocked_tree)) =
      Some (IsFile ''# Foo'') \<and>
    createDocsIndex [''proj'', ''test-app''] [''proj'', ''addon''] (world_of blocked_tree) =
      (Inl (SystemError ENOTDIR ''mkdir'' [''proj'', ''test-app'', ''app'', ''templates'', ''docs'']),
       world_of blocked_tree)"
    by (simp add: createDocsIndex_def Let_def path_join_def step_segment_def stat_def
        andThen_def ensureDir_def existsSync_def mkdirSync_recursive_def
        blocked_tree_def world_of_def)
  moreover have "stat [''proj'', ''addon'', ''README.md''] (files (world_of garbled_tree)) =
      Some (IsFile [CHR 0xFF])"
    by (simp add: stat_def garbled_tree_def world_of_def)
  moreover have
    "fst (createDocsIndex [''proj'', ''test-app''] [''proj'', ''addon''] (world_of garbled_tree)) =
       Inr ()"
    "stat [''proj'', ''test-app'', ''app'', ''templates'', ''docs'', ''index.md'']
       (files (snd (createDocsIndex [''proj'', ''test-app''] [''proj'', ''addon'']
          (world_of garbled_tree)))) =
       Some (IsFile [CHR 0xEF, CHR 0xBF, CHR 0xBD])"
    "fst (createDocsIndex_part000 [''proj'', ''addon''] (world_of garbled_tree)) = Inr ()"
    "stat [''proj'', ''addon'', ''test-app'', ''app'', ''templates'', ''docs'', ''index.md'']
       (files (snd (createDocsIndex_part000 [''proj'', ''addon''] (world_of garbled_tree)))) =
       Some (IsFile [CHR 0xEF, CHR 0xBF, CHR 0xBD])"
    by code_simp+
  ultimately show ?thesis
    by simp
qed

text \<open>
  Claim C5, as amended. Where \<^verbatim>\<open>README.md\<close> is absent and \<^verbatim>\<open>docs/index.md\<close> can
  be written, the docs index emitter returns normally, \<^verbatim>\<open>index.md\<close> holds exactly the
  placeholder text, and the warning is the one line added to the console. The addon root is
  the one \<^verbatim>\<open>setupDoc\<close> passes.
\<close>

theorem docs_index_placeholder:
  "(stat (path_resolve root [''..'', ''addon''] @ [''README.md'']) (files w) = None \<and>
    writable (root @ [''app'', ''templates'', ''docs'', ''index.md'']) (files w) \<longrightarrow>
      (\<exists>w'. createDocsIndex root (path_resolve root [''..'', ''addon'']) w = (Inr (), w') \<and>
         stat (root @ [''app'', ''templates'', ''docs'', ''index.md'']) (files w') =
           Some (IsFile placeholderContent) \<and>
         console w' = console w @
           [(Warn, warning_sign @ '' README.md not found, creating a placeholder index.md.'')])) \<and>
   (stat (addonRoot @ [''README.md'']) (files w) = None \<and>
    writable (addonRoot @ [''test-app'', ''app'', ''templates'', ''docs'', ''index.md'']) (files w) \<longrightarrow>
      (\<exists>w'. createDocsIndex_part000 addonRoot w = (Inr (), w') \<and>
         stat (addonRoot @ [''test-app'', ''app'', ''templates'', ''docs'', ''index.md'']) (files w') =
           Some (IsFile placeholderContent) \<and>
         console w' = console w @
           [(Warn, warning_sign @ '' README.md not found, creating a placeholder index.md.'')]))"
  using createDocsIndex_absent [OF _ readme_not_above_docs(1), of root w]
    createDocsIndex_absent [OF _ readme_not_above_docs(2), of addonRoot w]
  by (simp add: createDocsIndex_part000)

theorem docs_index_placeholder_witness:
  "(\<exists>w'. createDocsIndex [''proj'', ''test-app''] [''proj'', ''addon''] (world_of bare_tree) =
            (Inr (), w') \<and>
      stat [''proj'', ''test-app'', ''app'', ''templates'', ''docs'', ''index.md''] (files w') =
        Some (IsFile placeholderContent) \<and>
      console w' =
        [(Warn, warning_sign @ '' README.md not found, creating a placeholder index.md.'')]) \<and>
   (\<exists>w'. createDocsIndex_part000 [''proj'', ''addon''] (world_of bare_tree) = (Inr (), w') \<and>
      stat [''proj'', ''addon'', ''test-app'', ''app'', ''templates'', ''docs'', ''index.md'']
        (files w') = Some (IsFile placeholderContent) \<and>
      console w' =
        [(Warn, warning_sign @ '' README.md not found, creating a placeholder index.md.'')])"
proof -
  have root: "path_resolve [''proj'', ''test-app''] [''..'', ''addon''] = [''proj'', ''addon'']"
    by (simp add: path_resolve_addon)
  have absent: "stat ([''proj'', ''addon''] @ [''README.md'']) (files (world_of bare_tree)) = None"
    by (simp add: stat_def bare_tree_def world_of_def)
  have clear:
    "writable ([''proj'', ''test-app''] @ [''app'', ''templates'', ''docs'', ''index.md''])
       (files (world_of bare_tree))"
    "writable ([''proj'', ''addon''] @ [''test-app'', ''app'', ''templates'', ''docs'', ''index.md''])
       (files (world_of bare_tree))"
    by (simp_all add: writable_def can_hold_def is_file_def path_dirname_def stat_def
        bare_tree_def world_of_def)
  from root absent clear
    docs_index_placeholder [of "[''proj'', ''test-app'']" "world_of bare_tree" "[''proj'', ''addon'']"]
  show ?thesis
    by (simp add: world_of_def)
qed

text \<open>
  The claim as stated fails where \<^verbatim>\<open>README.md\<close> is absent and a regular file stands
  at \<^verbatim>\<open>test-app/app/templates\<close>: the emitter fails, and \<^verbatim>\<open>index.md\<close> is not
  written.
\<close>

theorem docs_index_placeholder_counterexample:
  "stat [''proj'', ''addon'', ''README.md''] (files (world_of clogged_tree)) = None \<and>
   createDocsIndex [''proj'', ''test-app''] [''proj'', ''addon''] (world_of clogged_tree) =
     (Inl (SystemError ENOTDIR ''mkdir'' [''proj'', ''test-app'', ''app'', ''templates'', ''docs'']),
      world_of clogged_tree)"
  by (simp add: createDocsIndex_def Let_def path_join_def step_segment_def stat_def
      andThen_def ensureDir_def existsSync_def mkdirSync_recursive_def
      clogged_tree_def world_of_def)

subsection \<open>Index layout and docs layout\<close>

lemma createIndexLayout_unbound:
  "createIndexLayout None root w = (Inl (ReferenceError ''testApp''), w)"
  by (simp add: createIndexLayout_def js_throw_def)

lemma setupDoc_never_completes: "fst (setupDoc JSON_parse INIT_CWD w) \<noteq> Inr ()"
  by (simp add: setupDoc_def Let_def andThen_def js_throw_def createIndexLayout_unbound
      split: option.splits prod.splits sum.splits)

lemma createIndexLayout_ok:
  assumes "writable (addonRoot @ [''test-app'', ''app'', ''templates'', ''index.hbs'']) (files w)"
  shows "\<exists>w'. createIndexLayout (Some testApp) addonRoot w = (Inr (), w') \<and>
    stat (addonRoot @ [''test-app'', ''app'', ''templates'', ''index.hbs'']) (files w') =
      Some (IsFile indexText) \<and>
    console w' = console w @ [(Log, check_mark @ '' Created index.hbs'')]"
proof -
  let ?d = "addonRoot @ [''test-app'', ''app'', ''templates'']"
  from assms have "can_hold ?d (files w)" "stat (?d @ [''index.hbs'']) (files w) \<noteq> Some IsDir"
    using writable_snoc [of ?d "''index.hbs''" "files w"] by simp_all
  from write_after_ensureDir [OF this, of indexText]
  obtain w1 w2 where "ensureDir ?d w = (Inr (), w1)"
    and "writeFileSync (?d @ [''index.hbs'']) indexText w1 = (Inr (), w2)"
    and "console w2 = console w"
    and "\<forall>q. stat q (files w2) = (if q = ?d @ [''index.hbs''] then Some (IsFile indexText) else stat q (files w1))"
    by blast
  then show ?thesis
    by (simp add: createIndexLayout_def Let_def path_join_literals path_dirname_def
        butlast_append andThen_def trim_indexLayout console_log_def)
qed

lemma createDocsLayout_ok:
  assumes "writable (root @ [''app'', ''templates'', ''docs.hbs'']) (files w)"
  shows "\<exists>w'. createDocsLayout root w = (Inr (), w') \<and>
    stat (root @ [''app'', ''templates'', ''docs.hbs'']) (files w') = Some (IsFile docsText) \<and>
    console w' = console w @ [(Log, check_mark @ '' Created docs.hbs'')]"
proof -
  let ?d = "root @ [''app'', ''templates'']"
  from assms have "can_hold ?d (files w)" "stat (?d @ [''docs.hbs'']) (files w) \<noteq> Some IsDir"
    using writable_snoc [of ?d "''docs.hbs''" "files w"] by simp_all
  from write_after_ensureDir [OF this, of docsText]
  obtain w1 w2 where "ensureDir ?d w = (Inr (), w1)"
    and "writeFileSync (?d @ [''docs.hbs'']) docsText w1 = (Inr (), w2)"
    and "console w2 = console w"
    and "\<forall>q. stat q (files w2) = (if q = ?d @ [''docs.hbs''] then Some (IsFile docsText) else stat q (files w1))"
    by blast
  then show ?thesis
    by (simp add: createDocsLayout_def Let_def path_join_literals path_dirname_def
        butlast_append andThen_def trim_docsLayout console_log_def)
qed

lemma createDocsLayout_part000:
  "createDocsLayout_part000 addonRoot = createDocsLayout (addonRoot @ [''test-app''])"
  by (simp add: createDocsLayout_part000_def createDocsLayout_def Let_def path_join_literals)

text \<open>
  Claim C1. In \<^verbatim>\<open>src/lib/setupDoc.js\<close> the index layout emitter writes nothing: its
  first statement reads \<^verbatim>\<open>testApp\<close>, which that module never declares, so every
  call throws a ReferenceError and leaves the world as it was. No run of that script
  returns normally. (\<open>createIndexLayout_ok\<close> above is the same function under the
  declaration of \<^verbatim>\<open>part_000\<close>, where it writes the layout.)
\<close>

theorem index_layout_reference_error:
  "createIndexLayout None root w = (Inl (ReferenceError ''testApp''), w) \<and>
   fst (setupDoc JSON_parse INIT_CWD w) \<noteq> Inr ()"
  by (simp add: createIndexLayout_unbound setupDoc_never_completes)

theorem index_layout_reference_error_witness:
  "(createIndexLayout None [''proj'', ''test-app''] (world_of demo_tree) =
      (Inl (ReferenceError ''testApp''), world_of demo_tree) \<and>
    fst (setupDoc demo_parse (Some [''proj'', ''test-app'']) (world_of demo_tree)) \<noteq> Inr ()) \<and>
   fst (setupDoc demo_parse (Some [''proj'', ''test-app'']) (world_of demo_tree)) =
     Inl (ReferenceError ''testApp'') \<and>
   stat [''proj'', ''test-app'', ''app'', ''templates'', ''index.hbs'']
     (files (snd (setupDoc demo_parse (Some [''proj'', ''test-app'']) (world_of demo_tree)))) = None \<and>
   stat [''proj'', ''test-app'', ''app'', ''templates'', ''docs.hbs'']
     (files (snd (setupDoc demo_parse (Some [''proj'', ''test-app'']) (world_of demo_tree)))) = None \<and>
   stat [''proj'', ''test-app'', ''app'', ''templates'', ''docs'', ''index.md'']
     (files (snd (setupDoc demo_parse (Some [''proj'', ''test-app'']) (world_of demo_tree)))) =
       Some (IsFile ''# Foo'')"
proof (rule conjI)
  show "createIndexLayout None [''proj'', ''test-app''] (world_of demo_tree) =
      (Inl (ReferenceError ''testApp''), world_of demo_tree) \<and>
    fst (setupDoc demo_parse (Some [''proj'', ''test-app'']) (world_of demo_tree)) \<noteq> Inr ()"
    by (rule index_layout_reference_error)
next
  show "fst (setupDoc demo_parse (Some [''proj'', ''test-app'']) (world_of demo_tree)) =
     Inl (ReferenceError ''testApp'') \<and>
   stat [''proj'', ''test-app'', ''app'', ''templates'', ''index.hbs'']
     (files (snd (setupDoc demo_parse (Some [''proj'', ''test-app'']) (world_of demo_tree)))) = None \<and>
   stat [''proj'', ''test-app'', ''app'', ''templates'', ''docs.hbs'']
     (files (snd (setupDoc demo_parse (Some [''proj'', ''test-app'']) (world_of demo_tree)))) = None \<and>
   stat [''proj'', ''test-app'', ''app'', ''templates'', ''docs'', ''index.md'']
     (files (snd (setupDoc demo_parse (Some [''proj'', ''test-app'']) (world_of demo_tree)))) =
       Some (IsFile ''# Foo'')"
    by code_simp
qed

subsection \<open>Loading the manifest\<close>

lemma getParentPackageInfo_malformed:
  assumes "stat (addonRoot @ [''package.json'']) (files w) = Some (IsFile text)"
    and "JSON_parse (utf8_text text) = None"
  shows "getParentPackageInfo JSON_parse addonRoot w = (Inl SyntaxError, w)"
  using assms
  by (simp add: getParentPackageInfo_def Let_def path_join_literals existsSync_stat
      andThen_def readFileSync_file js_eval_def js_throw_def)

text \<open>
  Claim C2. Where \<^verbatim>\<open>package.json\<close> is a file whose text, as
  \<^verbatim>\<open>readFileSync\<close> decodes it, is not valid JSON, the run
  ends with the SyntaxError of \<^verbatim>\<open>JSON.parse\<close>. The world at that moment is the initial
  one with the lines that print the roots added to the console: the tree is unchanged and
  no emitter has logged.
\<close>

theorem malformed_manifest:
  assumes "stat (path_resolve root [''..'', ''addon''] @ [''package.json'']) (files w) =
      Some (IsFile text)"
    and "JSON_parse (utf8_text text) = None"
  shows
    "setupDoc JSON_parse (Some root) w =
       (Inl SyntaxError,
        w\<lparr>console := console w @
           [(Log, ''addon root ------>  '' @ path_str (path_resolve root [''..'', ''addon''])),
            (Log, ''test-app root ------>  '' @ path_str root)]\<rparr>) \<and>
     setupDoc_part000 JSON_parse (Some root) w =
       (Inl SyntaxError,
        w\<lparr>console := console w @
           [(Log, ''ADDON ROOT ------>  '' @ path_str (path_resolve root [''..'', ''addon'']))]\<rparr>)"
proof -
  let ?a = "path_resolve root [''..'', ''addon'']"
  have "getParentPackageInfo JSON_parse ?a (w\<lparr>console := c\<rparr>) = (Inl SyntaxError, w\<lparr>console := c\<rparr>)" for c
    using assms by (intro getParentPackageInfo_malformed) simp_all
  then show ?thesis
    by (simp add: setupDoc_def setupDoc_part000_def Let_def andThen_def console_log_def)
qed

theorem malformed_manifest_witness:
  "setupDoc demo_parse (Some [''proj'', ''test-app''])
     (world_of (Dir [(''proj'', Dir [(''addon'', Dir [(''package.json'', File ''{name:'')])])])) =
     (Inl SyntaxError,
      \<lparr>files = Dir [(''proj'', Dir [(''addon'', Dir [(''package.json'', File ''{name:'')])])],
       console = [(Log, ''addon root ------>  /proj/addon''),
                  (Log, ''test-app root ------>  /proj/test-app'')]\<rparr>) \<and>
   setupDoc_part000 demo_parse (Some [''proj'', ''test-app''])
     (world_of (Dir [(''proj'', Dir [(''addon'', Dir [(''package.json'', File ''{name:'')])])])) =
     (Inl SyntaxError,
      \<lparr>files = Dir [(''proj'', Dir [(''addon'', Dir [(''package.json'', File ''{name:'')])])],
       console = [(Log, ''ADDON ROOT ------>  /proj/addon'')]\<rparr>)"
proof -
  let ?w = "world_of (Dir [(''proj'', Dir [(''addon'', Dir [(''package.json'', File ''{name:'')])])])"
  have manifest: "stat (path_resolve [''proj'', ''test-app''] [''..'', ''addon''] @ [''package.json''])
      (files ?w) = Some (IsFile ''{name:'')"
    by (simp add: path_resolve_addon stat_def world_of_def)
  have bad: "demo_parse (utf8_text ''{name:'') = None"
    by (simp add: demo_parse_def demo_manifest_def utf8_text_ascii)
  from malformed_manifest [of "[''proj'', ''test-app'']" ?w "''{name:''" demo_parse, OF manifest bad]
  show ?thesis
    by (simp add: path_resolve_addon path_str_def world_of_def)
qed

section \<open>What a run leaves alone\<close>

lemma keeps_andThen:
  assumes "keeps q m" "\<And>x. keeps q (f x)"
  shows "keeps q (andThen m f)"
  unfolding keeps_def
proof
  fix w
  show "stat q (files (snd (andThen m f w))) = stat q (files w)"
  proof (cases "m w")
    case (Pair r w')
    with assms(1) have "stat q (files w') = stat q (files w)"
      by (auto simp: keeps_def dest: spec [of _ w])
    with Pair assms(2) show ?thesis
      by (cases r) (auto simp: andThen_def keeps_def)
  qed
qed

lemma keeps_cond:
  assumes "keeps q a" "keeps q b"
  shows "keeps q (\<lambda>w. if c w then a w else b w)"
  using assms by (simp add: keeps_def)

lemma keeps_pure:
  "keeps q (js_return x)" "keeps q (js_throw e)" "keeps q (js_eval r)"
  "keeps q (console_log s)" "keeps q (console_warn s)" "keeps q (readFileSync p)"
  by (auto simp: keeps_def js_return_def js_throw_def js_eval_def console_log_def
      console_warn_def readFileSync_def split: sum.splits node.splits)

lemma keeps_writeFileSync: "q \<noteq> g \<Longrightarrow> keeps q (writeFileSync g c)"
  unfolding keeps_def
proof
  fix w
  assume "q \<noteq> g"
  obtain r w' where r: "writeFileSync g c w = (r, w')"
    by (cases "writeFileSync g c w")
  with \<open>q \<noteq> g\<close> writeFileSync_Inr(2) [of g c w _ w' q] writeFileSync_Inl(1) [of g c w _ w']
  show "stat q (files (snd (writeFileSync g c w))) = stat q (files w)"
    by (cases r) auto
qed

lemma keeps_ensureDir: "\<not> prefix q d \<Longrightarrow> keeps q (ensureDir d)"
  unfolding keeps_def
proof
  fix w
  assume "\<not> prefix q d"
  obtain r w' where r: "ensureDir d w = (r, w')"
    by (cases "ensureDir d w")
  with \<open>\<not> prefix q d\<close> ensureDir_Inr(3) [of d w _ w' q] ensureDir_Inl(1) [of d w _ w']
  show "stat q (files (snd (ensureDir d w))) = stat q (files w)"
    by (cases r) auto
qed

lemma not_prefix_shorter: "\<not> prefix q (p @ [x]) \<Longrightarrow> \<not> prefix q p"
  by (auto simp: prefix_def)

lemmas keeps_intros =
  keeps_andThen keeps_cond keeps_pure keeps_writeFileSync keeps_ensureDir

lemma keeps_updateRouter:
  "q \<noteq> root @ [''app'', ''router.js''] \<Longrightarrow> keeps q (updateRouter root)"
  by (simp add: updateRouter_def Let_def path_join_literals keeps_intros)

lemma keeps_updateApplicationTemplate:
  "q \<noteq> root @ [''app'', ''templates'', ''application.hbs''] \<Longrightarrow>
   \<not> prefix q (root @ [''app'', ''templates'']) \<Longrightarrow>
   keeps q (updateApplicationTemplate root addonName repoUrl)"
  by (simp add: updateApplicationTemplate_def Let_def path_join_literals path_dirname_def
      butlast_append keeps_intros)

lemma keeps_createDocsIndex:
  "q \<noteq> root @ [''app'', ''templates'', ''docs'', ''index.md''] \<Longrightarrow>
   \<not> prefix q (root @ [''app'', ''templates'', ''docs'']) \<Longrightarrow>
   keeps q (createDocsIndex root addonRoot)"
  by (simp add: createDocsIndex_def Let_def path_join_literals keeps_intros)

lemma keeps_createIndexLayout:
  "q \<noteq> addonRoot @ [''test-app'', ''app'', ''templates'', ''index.hbs''] \<Longrightarrow>
   \<not> prefix q (addonRoot @ [''test-app'', ''app'', ''templates'']) \<Longrightarrow>
   keeps q (createIndexLayout (Some testApp) addonRoot)"
  "keeps q (createIndexLayout None root)"
  by (simp_all add: createIndexLayout_def Let_def path_join_literals path_dirname_def
      butlast_append keeps_intros)

lemma keeps_createDocsLayout:
  "q \<noteq> root @ [''app'', ''templates'', ''docs.hbs''] \<Longrightarrow>
   \<not> prefix q (root @ [''app'', ''templates'']) \<Longrightarrow>
   keeps q (createDocsLayout root)"
  by (simp add: createDocsLayout_def Let_def path_join_literals path_dirname_def
      butlast_append keeps_intros)

lemma keeps_getParentPackageInfo: "keeps q (getParentPackageInfo JSON_parse addonRoot)"
  by (simp add: getParentPackageInfo_def Let_def keeps_intros)

text \<open>
  The paths a run may change: the five targets and the directories above them.
\<close>

lemma keeps_setupDoc:
  assumes "q \<notin> set [root @ [''app'', ''router.js''],
      root @ [''app'', ''templates'', ''application.hbs''],
      root @ [''app'', ''templates'', ''docs'', ''index.md''],
      root @ [''app'', ''templates'', ''docs.hbs'']]"
    and "\<not> prefix q (root @ [''app'', ''templates'', ''docs''])"
  shows "keeps q (setupDoc JSON_parse (Some root))"
proof -
  from assms(2) have "\<not> prefix q (root @ [''app'', ''templates''])"
    using not_prefix_shorter [of q "root @ [''app'', ''templates'']" "''docs''"] by simp
  with assms show ?thesis
    by (simp add: setupDoc_def Let_def keeps_intros keeps_updateRouter
        keeps_updateApplicationTemplate keeps_createDocsIndex keeps_createIndexLayout
        keeps_createDocsLayout keeps_getParentPackageInfo)
qed

lemma keeps_setupDoc_part000:
  assumes "q \<notin> set [a @ [''test-app'', ''app'', ''router.js''],
      a @ [''test-app'', ''app'', ''templates'', ''application.hbs''],
      a @ [''test-app'', ''app'', ''templates'', ''docs'', ''index.md''],
      a @ [''test-app'', ''app'', ''templates'', ''index.hbs''],
      a @ [''test-app'', ''app'', ''templates'', ''docs.hbs'']]"
    and "\<not> prefix q (a @ [''test-app'', ''app'', ''templates'', ''docs''])"
    and "a = path_resolve root [''..'', ''addon'']"
  shows "keeps q (setupDoc_part000 JSON_parse (Some root))"
proof -
  from assms(2) have "\<not> prefix q (a @ [''test-app'', ''app'', ''templates''])"
    using not_prefix_shorter [of q "a @ [''test-app'', ''app'', ''templates'']" "''docs''"] by simp
  with assms show ?thesis
    by (simp add: setupDoc_part000_def Let_def keeps_intros updateRouter_part000
        updateApplicationTemplate_part000 createDocsIndex_part000 createDocsLayout_part000
        keeps_updateRouter
        keeps_updateApplicationTemplate keeps_createDocsIndex keeps_createIndexLayout
        keeps_createDocsLayout keeps_getParentPackageInfo)
qed


lemma inputs_apart:
  "set (input_files (path_resolve root [''..'', ''addon''])) \<inter> set (write_targets root) = {}"
  "set (input_files a) \<inter> set (write_targets_part000 a) = {}"
  "q \<in> set (input_files (path_resolve root [''..'', ''addon''])) \<Longrightarrow>
     \<not> prefix q (path_join root [''app/templates/docs''])"
  "q \<in> set (input_files a) \<Longrightarrow> \<not> prefix q (path_join a [testApp, ''/templates/docs''])"
  by (cases root rule: rev_cases;
      auto simp: input_files_def write_targets_def write_targets_part000_def path_join_literals
        path_resolve_addon)+

text \<open>
  Claim C9. A run changes nothing but its targets and the directories above them: every
  other path is after the run what it was before, whatever the outcome. The two input files
  are neither a target nor such a directory, so \<^verbatim>\<open>package.json\<close> and
  \<^verbatim>\<open>README.md\<close> are after the run what they were before. This holds for both files
  of the repository.
\<close>

theorem inputs_untouched:
  "(\<forall>q. q \<notin> set (write_targets root) \<longrightarrow> \<not> prefix q (path_join root [''app/templates/docs'']) \<longrightarrow>
      stat q (files (snd (setupDoc JSON_parse (Some root) w))) = stat q (files w)) \<and>
   set (input_files (path_resolve root [''..'', ''addon''])) \<inter> set (write_targets root) = {} \<and>
   (\<forall>q \<in> set (input_files (path_resolve root [''..'', ''addon''])).
      stat q (files (snd (setupDoc JSON_parse (Some root) w))) = stat q (files w)) \<and>
   (\<forall>q. q \<notin> set (write_targets_part000 (path_resolve root [''..'', ''addon''])) \<longrightarrow>
      \<not> prefix q (path_join (path_resolve root [''..'', ''addon'']) [testApp, ''/templates/docs'']) \<longrightarrow>
      stat q (files (snd (setupDoc_part000 JSON_parse (Some root) w))) = stat q (files w)) \<and>
   set (input_files (path_resolve root [''..'', ''addon''])) \<inter>
     set (write_targets_part000 (path_resolve root [''..'', ''addon''])) = {} \<and>
   (\<forall>q \<in> set (input_files (path_resolve root [''..'', ''addon''])).
      stat q (files (snd (setupDoc_part000 JSON_parse (Some root) w))) = stat q (files w))"
proof -
  let ?a = "path_resolve root [''..'', ''addon'']"
  have lib: "stat q (files (snd (setupDoc JSON_parse (Some root) w))) = stat q (files w)"
    if "q \<notin> set (write_targets root)" "\<not> prefix q (path_join root [''app/templates/docs''])" for q
  proof -
    from that have "keeps q (setupDoc JSON_parse (Some root))"
      by (intro keeps_setupDoc) (simp_all add: write_targets_def path_join_literals)
    then show ?thesis
      by (simp add: keeps_def)
  qed
  have var: "stat q (files (snd (setupDoc_part000 JSON_parse (Some root) w))) = stat q (files w)"
    if "q \<notin> set (write_targets_part000 ?a)" "\<not> prefix q (path_join ?a [testApp, ''/templates/docs''])" for q
  proof -
    from that have "keeps q (setupDoc_part000 JSON_parse (Some root))"
      by (intro keeps_setupDoc_part000 [where a = ?a])
        (simp_all add: write_targets_part000_def path_join_literals)
    then show ?thesis
      by (simp add: keeps_def)
  qed
  have in_lib: "stat q (files (snd (setupDoc JSON_parse (Some root) w))) = stat q (files w)"
    if "q \<in> set (input_files ?a)" for q
    using that inputs_apart(1) [of root] inputs_apart(3) [OF that] by (intro lib) auto
  have in_var: "stat q (files (snd (setupDoc_part000 JSON_parse (Some root) w))) = stat q (files w)"
    if "q \<in> set (input_files ?a)" for q
    using that inputs_apart(2) [of ?a] inputs_apart(4) [OF that] by (intro var) auto
  from lib var in_lib in_var inputs_apart(1) [of root] inputs_apart(2) [of ?a]
  show ?thesis
    by blast
qed

theorem inputs_untouched_witness:
  "stat [''proj'', ''addon'', ''package.json'']
     (files (snd (setupDoc demo_parse (Some [''proj'', ''test-app'']) (world_of demo_tree)))) =
     Some (IsFile demo_manifest) \<and>
   stat [''proj'', ''addon'', ''README.md'']
     (files (snd (setupDoc demo_parse (Some [''proj'', ''test-app'']) (world_of demo_tree)))) =
     Some (IsFile ''# Foo'') \<and>
   stat [''proj'', ''addon'', ''package.json'']
     (files (snd (setupDoc_part000 demo_parse (Some [''proj'', ''test-app'']) (world_of nested_tree)))) =
     Some (IsFile demo_manifest) \<and>
   stat [''proj'', ''addon'', ''README.md'']
     (files (snd (setupDoc_part000 demo_parse (Some [''proj'', ''test-app'']) (world_of nested_tree)))) =
     Some (IsFile ''# Foo'')"
proof -
  have inputs: "input_files (path_resolve [''proj'', ''test-app''] [''..'', ''addon'']) =
      [[''proj'', ''addon'', ''package.json''], [''proj'', ''addon'', ''README.md'']]"
    by (simp add: input_files_def path_resolve_addon path_join_literals)
  have before:
    "stat [''proj'', ''addon'', ''package.json''] (files (world_of demo_tree)) = Some (IsFile demo_manifest)"
    "stat [''proj'', ''addon'', ''README.md''] (files (world_of demo_tree)) = Some (IsFile ''# Foo'')"
    "stat [''proj'', ''addon'', ''package.json''] (files (world_of nested_tree)) = Some (IsFile demo_manifest)"
    "stat [''proj'', ''addon'', ''README.md''] (files (world_of nested_tree)) = Some (IsFile ''# Foo'')"
    by (simp_all add: stat_def demo_tree_def nested_tree_def world_of_def)
  from inputs before
    inputs_untouched [of "[''proj'', ''test-app'']" demo_parse "world_of demo_tree"]
    inputs_untouched [of "[''proj'', ''test-app'']" demo_parse "world_of nested_tree"]
  show ?thesis
    by simp
qed

section \<open>The directory of a write\<close>

lemma open_safe_andThen:
  assumes "open_safe m" "\<And>x. open_safe (f x)"
  shows "open_safe (andThen m f)"
  unfolding open_safe_def
proof (intro allI impI)
  fix w code g
  assume failed: "fst (andThen m f w) = Inl (SystemError code ''open'' g)"
  obtain r w' where m: "m w = (r, w')"
    by (cases "m w")
  show "(stat (path_dirname g) (files (snd (andThen m f w))) \<noteq> None \<and> code \<noteq> ENOENT)"
  proof (cases r)
    case (Inl e)
    with m failed assms(1) show ?thesis
      by (auto simp: andThen_def open_safe_def dest!: spec [of _ w])
  next
    case (Inr x)
    with m failed assms(2) [of x] show ?thesis
      by (auto simp: andThen_def open_safe_def dest!: spec [of _ w'])
  qed
qed

lemma open_safe_cond:
  assumes "open_safe a" "open_safe b"
  shows "open_safe (\<lambda>w. if c w then a w else b w)"
  using assms by (simp add: open_safe_def)

lemma open_safe_pure:
  "open_safe (js_return x)" "open_safe (js_eval (Inr x))" "open_safe (js_eval (Inl TypeError))"
  "open_safe (js_eval (Inl SyntaxError))" "open_safe (js_throw TypeError)"
  "open_safe (js_throw (ReferenceError v))"
  "open_safe (console_log s)" "open_safe (console_warn s)" "open_safe (ensureDir d)"
  by (auto simp: open_safe_def js_return_def js_throw_def js_eval_def console_log_def
      console_warn_def ensureDir_def mkdirSync_recursive_def split: sum.splits)


lemma js_to_string_error:
  "js_to_string v = Inl e \<Longrightarrow> e = TypeError"
  "js_join vs = Inl e \<Longrightarrow> e = TypeError"
  by (induction v and vs rule: js_to_string_js_join.induct)
    (auto split: if_splits sum.splits)

lemma open_safe_after_ensureDir:
  assumes "\<And>w code g. stat d (files w) \<noteq> None \<Longrightarrow>
      fst (k w) = Inl (SystemError code ''open'' g) \<Longrightarrow>
      (stat (path_dirname g) (files (snd (k w))) \<noteq> None \<and> code \<noteq> ENOENT)"
  shows "open_safe (andThen (ensureDir d) (\<lambda>_. k))"
  unfolding open_safe_def
proof (intro allI impI)
  fix w code g
  assume failed: "fst (andThen (ensureDir d) (\<lambda>_. k) w) = Inl (SystemError code ''open'' g)"
  obtain r w1 where e: "ensureDir d w = (r, w1)"
    by (cases "ensureDir d w")
  show "(stat (path_dirname g) (files (snd (andThen (ensureDir d) (\<lambda>_. k) w))) \<noteq> None \<and> code \<noteq> ENOENT)"
  proof (cases r)
    case (Inl x)
    with e failed ensureDir_Inl(2) [of d w x w1] show ?thesis
      by (simp add: andThen_def)
  next
    case (Inr u)
    with e ensureDir_Inr(2) [of d w u w1] have "stat d (files w1) \<noteq> None"
      by simp
    with e Inr failed assms [of w1 code g] show ?thesis
      by (simp add: andThen_def)
  qed
qed

lemma write_failure:
  assumes "stat d (files w) \<noteq> None" "writeFileSync (d @ [x]) c w = (Inl e, w')"
  shows "w' = w \<and> (\<exists>code. e = SystemError code ''open'' (d @ [x]) \<and> code \<noteq> ENOENT)"
proof -
  from writeFileSync_Inl [OF assms(2)] obtain code where w: "w' = w"
    and e: "e = SystemError code ''open'' (d @ [x])"
    and code: "store_file (d @ [x]) c (files w) = Inl code"
    by blast
  from store_file_error [OF code] assms(1) have "code \<noteq> ENOENT"
    by auto
  with w e show ?thesis by blast
qed

lemma write_then_log_safe:
  assumes "stat d (files w) \<noteq> None"
    and "fst (andThen (writeFileSync (d @ [x]) c) (\<lambda>_. console_log s) w) = Inl (SystemError code ''open'' g)"
  shows "(stat (path_dirname g) (files (snd (andThen (writeFileSync (d @ [x]) c) (\<lambda>_. console_log s) w))) \<noteq> None \<and> code \<noteq> ENOENT)"
proof -
  obtain r w' where r: "writeFileSync (d @ [x]) c w = (r, w')"
    by (cases "writeFileSync (d @ [x]) c w")
  show ?thesis
  proof (cases r)
    case (Inl e)
    with r assms write_failure [of d w x c e w'] show ?thesis
      by (auto simp: andThen_def path_dirname_def)
  next
    case (Inr u)
    with r assms show ?thesis
      by (simp add: andThen_def console_log_def)
  qed
qed

lemma write_safe:
  assumes "stat d (files w) \<noteq> None"
    and "fst (writeFileSync (d @ [x]) c w) = Inl (SystemError code ''open'' g)"
  shows "(stat (path_dirname g) (files (snd (writeFileSync (d @ [x]) c w))) \<noteq> None \<and> code \<noteq> ENOENT)"
proof -
  obtain r w' where r: "writeFileSync (d @ [x]) c w = (r, w')"
    by (cases "writeFileSync (d @ [x]) c w")
  with assms write_failure [of d w x c _ w'] show ?thesis
    by (cases r) (auto simp: path_dirname_def)
qed

lemma open_safe_updateRouter: "open_safe (updateRouter root)"
  unfolding open_safe_def
proof (intro allI impI)
  fix w code g
  let ?d = "root @ [''app'']"
  assume failed: "fst (updateRouter root w) = Inl (SystemError code ''open'' g)"
  then have there: "stat (?d @ [''router.js'']) (files w) \<noteq> None"
    by (auto simp: updateRouter_def Let_def path_join_literals existsSync_stat console_warn_def
        split: if_splits)
  then have "stat ?d (files w) \<noteq> None"
    using stat_parent [of ?d "''router.js''" "files w"] by simp
  from write_then_log_safe [OF this, of "''router.js''" routerContent _ code g] failed there
  show "(stat (path_dirname g) (files (snd (updateRouter root w))) \<noteq> None \<and> code \<noteq> ENOENT)"
    by (auto simp: updateRouter_def Let_def path_join_literals existsSync_stat split: if_splits)
qed

lemma open_safe_updateApplicationTemplate:
  "open_safe (updateApplicationTemplate root addonName repoUrl)"
proof -
  let ?d = "root @ [''app'', ''templates'']"
  have "open_safe (andThen (ensureDir ?d) (\<lambda>_.
      andThen (js_eval (js_to_string addonName)) (\<lambda>nameText.
      andThen (js_eval (js_to_string repoUrl)) (\<lambda>repoText.
      andThen (writeFileSync (?d @ [''application.hbs'']) (trim (applicationContent nameText repoText))) (\<lambda>_.
      console_log (check_mark @ '' Updated application.hbs''))))))"
  proof (rule open_safe_after_ensureDir)
    fix w :: world and code g
    assume "stat ?d (files w) \<noteq> None"
    from write_then_log_safe [OF this]
    show "fst (andThen (js_eval (js_to_string addonName)) (\<lambda>nameText.
      andThen (js_eval (js_to_string repoUrl)) (\<lambda>repoText.
      andThen (writeFileSync (?d @ [''application.hbs'']) (trim (applicationContent nameText repoText))) (\<lambda>_.
      console_log (check_mark @ '' Updated application.hbs'')))) w) = Inl (SystemError code ''open'' g) \<Longrightarrow>
      (stat (path_dirname g) (files (snd (andThen (js_eval (js_to_string addonName)) (\<lambda>nameText.
      andThen (js_eval (js_to_string repoUrl)) (\<lambda>repoText.
      andThen (writeFileSync (?d @ [''application.hbs'']) (trim (applicationContent nameText repoText))) (\<lambda>_.
      console_log (check_mark @ '' Updated application.hbs'')))) w))) \<noteq> None \<and> code \<noteq> ENOENT)"
      by (cases "js_to_string addonName"; cases "js_to_string repoUrl")
        (auto simp: andThen_Inr andThen_Inl js_eval_def js_return_def js_throw_def
          dest: js_to_string_error)
  qed
  then show ?thesis
    by (simp add: updateApplicationTemplate_def Let_def path_join_literals path_dirname_def
        butlast_append)
qed


lemma open_safe_createDocsIndex: "open_safe (createDocsIndex root addonRoot)"
proof -
  let ?d = "root @ [''app'', ''templates'', ''docs'']"
  let ?r = "addonRoot @ [''README.md'']"
  let ?k = "\<lambda>w. if \<not> existsSync ?r w
           then andThen
                  (console_warn
                     (warning_sign @ '' README.md not found, creating a placeholder index.md.''))
                  (\<lambda>_. writeFileSync (?d @ [''index.md'']) placeholderContent) w
           else andThen (readFileSync ?r) (\<lambda>readmeContent.
                andThen (writeFileSync (?d @ [''index.md'']) readmeContent) (\<lambda>_.
                console_log (check_mark @ '' Created docs/index.md from README.md''))) w"
  have "open_safe (andThen (ensureDir ?d) (\<lambda>_. ?k))"
  proof (rule open_safe_after_ensureDir)
    fix w :: world and code g
    assume d: "stat ?d (files w) \<noteq> None"
      and failed: "fst (?k w) = Inl (SystemError code ''open'' g)"
    show "(stat (path_dirname g) (files (snd (?k w))) \<noteq> None \<and> code \<noteq> ENOENT)"
    proof (cases "stat ?r (files w)")
      case None
      let ?w = "w\<lparr>console := console w @
        [(Warn, warning_sign @ '' README.md not found, creating a placeholder index.md.'')]\<rparr>"
      from d have "stat ?d (files ?w) \<noteq> None" by simp
      from write_safe [OF this, of "''index.md''" placeholderContent code g] failed None
      show ?thesis
        by (simp add: existsSync_stat andThen_def console_warn_def)
    next
      case (Some k)
      show ?thesis
      proof (cases k)
        case (IsFile c)
        with Some have "readFileSync ?r w = (Inr (utf8_text c), w)"
          by (simp add: readFileSync_file)
        with write_then_log_safe [OF d, of "''index.md''" "utf8_text c" _ code g] failed Some
        show ?thesis
          by (simp add: existsSync_stat andThen_Inr)
      next
        case IsDir
        with Some have "readFileSync ?r w = (Inl (SystemError EISDIR ''read'' ?r), w)"
          by (simp add: readFileSync_dir)
        with failed Some show ?thesis
          by (simp add: existsSync_stat andThen_Inl)
      qed
    qed
  qed
  then show ?thesis
    by (simp add: createDocsIndex_def Let_def path_join_literals)
qed

lemma open_safe_createIndexLayout: "open_safe (createIndexLayout binding root)"
proof (cases binding)
  case None
  then show ?thesis
    by (simp add: createIndexLayout_def open_safe_pure)
next
  case (Some dir)
  let ?g = "path_join root [dir, ''/templates/index.hbs'']"
  have "path_join root [dir, ''/templates/index.hbs''] =
      path_join root [dir] @ [''templates'', ''index.hbs'']"
    by (simp add: path_join_def step_segment_def)
  then have g: "?g = (path_join root [dir] @ [''templates'']) @ [''index.hbs'']"
    by simp
  have "open_safe (andThen (ensureDir (path_join root [dir] @ [''templates''])) (\<lambda>_.
      andThen (writeFileSync ((path_join root [dir] @ [''templates'']) @ [''index.hbs'']) (trim indexLayout))
        (\<lambda>_. console_log (check_mark @ '' Created index.hbs''))))"
    by (rule open_safe_after_ensureDir) (rule write_then_log_safe)
  with Some show ?thesis
    by (simp add: createIndexLayout_def Let_def g path_dirname_def butlast_append)
qed

lemma open_safe_createDocsLayout: "open_safe (createDocsLayout root)"
proof -
  let ?d = "root @ [''app'', ''templates'']"
  have "open_safe (andThen (ensureDir ?d) (\<lambda>_.
      andThen (writeFileSync (?d @ [''docs.hbs'']) (trim docsLayout))
        (\<lambda>_. console_log (check_mark @ '' Created docs.hbs''))))"
    by (rule open_safe_after_ensureDir) (rule write_then_log_safe)
  then show ?thesis
    by (simp add: createDocsLayout_def Let_def path_join_literals path_dirname_def butlast_append)
qed

lemma open_safe_getParentPackageInfo: "open_safe (getParentPackageInfo JSON_parse addonRoot)"
  unfolding open_safe_def
proof (intro allI impI)
  fix w code g
  let ?p = "addonRoot @ [''package.json'']"
  assume failed: "fst (getParentPackageInfo JSON_parse addonRoot w) = Inl (SystemError code ''open'' g)"
  show "(stat (path_dirname g) (files (snd (getParentPackageInfo JSON_parse addonRoot w))) \<noteq> None \<and> code \<noteq> ENOENT)"
  proof (cases "stat ?p (files w)")
    case None
    with failed show ?thesis
      by (simp add: getParentPackageInfo_def Let_def path_join_literals existsSync_stat
          andThen_def console_warn_def js_return_def)
  next
    case (Some k)
    show ?thesis
    proof (cases k)
      case (IsFile c)
      with Some have "readFileSync ?p w = (Inr (utf8_text c), w)"
        by (simp add: readFileSync_file)
      with failed Some show ?thesis
        by (simp add: getParentPackageInfo_def Let_def path_join_literals existsSync_stat
            andThen_Inr js_eval_def js_throw_def js_return_def split: option.splits)
    next
      case IsDir
      with Some have "readFileSync ?p w = (Inl (SystemError EISDIR ''read'' ?p), w)"
        by (simp add: readFileSync_dir)
      with failed Some show ?thesis
        by (simp add: getParentPackageInfo_def Let_def path_join_literals existsSync_stat
            andThen_Inl)
    qed
  qed
qed

lemma open_safe_js_get: "open_safe (js_eval (js_get v k))"
  by (cases v) (simp_all add: js_get_def open_safe_pure)

lemma open_safe_js_to_string: "open_safe (js_eval (js_to_string v))"
proof (cases "js_to_string v")
  case (Inl e)
  then show ?thesis
    using js_to_string_error(1) [of v e] by (simp add: open_safe_pure)
next
  case (Inr s)
  then show ?thesis
    by (simp add: open_safe_pure)
qed

lemmas open_safe_intros =
  open_safe_andThen open_safe_pure open_safe_js_get open_safe_js_to_string
  open_safe_getParentPackageInfo open_safe_updateRouter open_safe_updateApplicationTemplate
  open_safe_createDocsIndex open_safe_createIndexLayout open_safe_createDocsLayout

lemma open_safe_setupDoc: "open_safe (setupDoc JSON_parse INIT_CWD)"
  by (cases INIT_CWD) (simp_all add: setupDoc_def Let_def open_safe_intros)

lemma open_safe_setupDoc_part000: "open_safe (setupDoc_part000 JSON_parse INIT_CWD)"
  by (cases INIT_CWD)
    (simp_all add: setupDoc_part000_def Let_def open_safe_intros updateRouter_part000
      updateApplicationTemplate_part000 createDocsIndex_part000 createDocsLayout_part000)


lemma ensureDir_ensures:
  assumes "fst (ensureDir d w) = Inr ()"
  shows "stat d (files (snd (ensureDir d w))) \<noteq> None"
    and "stat d (files (snd (ensureDir d w))) = Some IsDir \<or> is_file (stat d (files w))"
proof -
  obtain w' where w': "ensureDir d w = (Inr (), w')"
    using assms by (cases "ensureDir d w") auto
  note e = ensureDir_Inr [OF w']
  from e(2) w' show "stat d (files (snd (ensureDir d w))) \<noteq> None"
    by simp
  show "stat d (files (snd (ensureDir d w))) = Some IsDir \<or> is_file (stat d (files w))"
  proof (cases "stat d (files w)")
    case None
    with e(3) [of d] w' show ?thesis by simp
  next
    case (Some k)
    with e(3) [of d] w' show ?thesis
      by (cases k) (simp_all add: is_file_def)
  qed
qed

lemma written_into_directory:
  assumes "fst (writeFileSync g c w) = Inr ()" "g \<noteq> []"
  shows "stat (path_dirname g) (files w) = Some IsDir"
proof -
  obtain w' where w': "writeFileSync g c w = (Inr (), w')"
    using assms(1) by (cases "writeFileSync g c w") auto
  note f = writeFileSync_Inr [OF w']
  from f(2) [of g] have "stat g (files w') \<noteq> None" by simp
  from stat_butlast [OF this assms(2)] have "stat (butlast g) (files w') = Some IsDir" .
  moreover from assms(2) have "butlast g \<noteq> g"
    by (cases g rule: rev_cases) auto
  ultimately show ?thesis
    using f(2) [of "butlast g"] by (simp add: path_dirname_def)
qed

text \<open>
  Claim C7, as amended. Before a write the script makes sure that the path of the file's
  directory exists: after \<^verbatim>\<open>ensureDir\<close> the path is there, and it is a directory
  unless a regular file stood at it already (the existence check lets that through); the
  router is written only where \<^verbatim>\<open>router.js\<close> exists, and then its directory does. So
  in every run of either file, a write that fails finds the path of its directory present
  and never fails with \<^verbatim>\<open>ENOENT\<close>; and a write that succeeds was made into a
  directory.
\<close>

theorem parent_path_exists:
  "(fst (ensureDir d w) = Inr () \<longrightarrow>
      stat d (files (snd (ensureDir d w))) \<noteq> None \<and>
      (stat d (files (snd (ensureDir d w))) = Some IsDir \<or> is_file (stat d (files w)))) \<and>
   (existsSync g w \<and> g \<noteq> [] \<longrightarrow> stat (path_dirname g) (files w) = Some IsDir) \<and>
   (fst (writeFileSync g c w) = Inr () \<and> g \<noteq> [] \<longrightarrow> stat (path_dirname g) (files w) = Some IsDir) \<and>
   (\<forall>code p. fst (setupDoc JSON_parse INIT_CWD w) = Inl (SystemError code ''open'' p) \<longrightarrow>
      stat (path_dirname p) (files (snd (setupDoc JSON_parse INIT_CWD w))) \<noteq> None \<and>
      code \<noteq> ENOENT) \<and>
   (\<forall>code p. fst (setupDoc_part000 JSON_parse INIT_CWD w) = Inl (SystemError code ''open'' p) \<longrightarrow>
      stat (path_dirname p) (files (snd (setupDoc_part000 JSON_parse INIT_CWD w))) \<noteq> None \<and>
      code \<noteq> ENOENT)"
proof (intro conjI)
  show "fst (ensureDir d w) = Inr () \<longrightarrow>
      stat d (files (snd (ensureDir d w))) \<noteq> None \<and>
      (stat d (files (snd (ensureDir d w))) = Some IsDir \<or> is_file (stat d (files w)))"
    using ensureDir_ensures [of d w] by blast
  show "existsSync g w \<and> g \<noteq> [] \<longrightarrow> stat (path_dirname g) (files w) = Some IsDir"
    using stat_butlast [of g "files w"] by (simp add: existsSync_stat path_dirname_def)
  show "fst (writeFileSync g c w) = Inr () \<and> g \<noteq> [] \<longrightarrow>
      stat (path_dirname g) (files w) = Some IsDir"
    using written_into_directory [of g c w] by blast
  show "\<forall>code p. fst (setupDoc JSON_parse INIT_CWD w) = Inl (SystemError code ''open'' p) \<longrightarrow>
      stat (path_dirname p) (files (snd (setupDoc JSON_parse INIT_CWD w))) \<noteq> None \<and>
      code \<noteq> ENOENT"
    using open_safe_setupDoc [of JSON_parse INIT_CWD] by (simp add: open_safe_def)
  show "\<forall>code p. fst (setupDoc_part000 JSON_parse INIT_CWD w) = Inl (SystemError code ''open'' p) \<longrightarrow>
      stat (path_dirname p) (files (snd (setupDoc_part000 JSON_parse INIT_CWD w))) \<noteq> None \<and>
      code \<noteq> ENOENT"
    using open_safe_setupDoc_part000 [of JSON_parse INIT_CWD] by (simp add: open_safe_def)
qed

text \<open>
  The claim as stated fails where a regular file stands at
  \<^verbatim>\<open>test-app/app/templates\<close>: \<^verbatim>\<open>ensureDir\<close> finds the path and creates nothing,
  and the write of \<^verbatim>\<open>application.hbs\<close> is attempted with no directory above it.
\<close>

theorem parent_path_exists_counterexample:
  "fst (setupDoc demo_parse (Some [''proj'', ''test-app'']) (world_of clogged_tree)) =
     Inl (SystemError ENOTDIR ''open''
            [''proj'', ''test-app'', ''app'', ''templates'', ''application.hbs'']) \<and>
   stat [''proj'', ''test-app'', ''app'', ''templates'']
     (files (snd (setupDoc demo_parse (Some [''proj'', ''test-app'']) (world_of clogged_tree)))) =
     Some (IsFile ''not a directory'')"
  by code_simp

theorem parent_path_exists_witness:
  "stat [''proj'', ''test-app'', ''app'', ''templates'']
     (files (snd (ensureDir [''proj'', ''test-app'', ''app'', ''templates''] (world_of bare_tree)))) =
     Some IsDir \<and>
   stat [''proj'', ''test-app'', ''app''] (files (world_of demo_tree)) = Some IsDir \<and>
   stat (path_dirname [''proj'', ''test-app'', ''app'', ''templates'', ''application.hbs''])
     (files (snd (setupDoc demo_parse (Some [''proj'', ''test-app'']) (world_of clogged_tree)))) \<noteq> None"
proof -
  have ensured: "fst (ensureDir [''proj'', ''test-app'', ''app'', ''templates''] (world_of bare_tree)) = Inr ()"
    and plain: "\<not> is_file (stat [''proj'', ''test-app'', ''app'', ''templates''] (files (world_of bare_tree)))"
    by (simp_all add: ensureDir_def existsSync_def mkdirSync_recursive_def is_file_def stat_def
        bare_tree_def world_of_def)
  have router: "existsSync [''proj'', ''test-app'', ''app'', ''router.js''] (world_of demo_tree)"
    by (simp add: existsSync_def demo_tree_def world_of_def)
  have failed: "fst (setupDoc demo_parse (Some [''proj'', ''test-app'']) (world_of clogged_tree)) =
     Inl (SystemError ENOTDIR ''open''
            [''proj'', ''test-app'', ''app'', ''templates'', ''application.hbs''])"
    by code_simp
  from ensured plain
    parent_path_exists [of "[''proj'', ''test-app'', ''app'', ''templates'']" "world_of bare_tree"]
  have 1: "stat [''proj'', ''test-app'', ''app'', ''templates'']
     (files (snd (ensureDir [''proj'', ''test-app'', ''app'', ''templates''] (world_of bare_tree)))) =
     Some IsDir"
    by blast
  from router
    parent_path_exists [of _ "world_of demo_tree" "[''proj'', ''test-app'', ''app'', ''router.js'']"]
  have 2: "stat [''proj'', ''test-app'', ''app''] (files (world_of demo_tree)) = Some IsDir"
    by (simp add: path_dirname_def)
  from failed
    parent_path_exists [of _ "world_of clogged_tree" _ _ demo_parse "Some [''proj'', ''test-app'']"]
  have 3: "stat (path_dirname [''proj'', ''test-app'', ''app'', ''templates'', ''application.hbs''])
     (files (snd (setupDoc demo_parse (Some [''proj'', ''test-app'']) (world_of clogged_tree)))) \<noteq> None"
    by blast
  from 1 2 3 show ?thesis
    by blast
qed

section \<open>Running the script a second time\<close>

subsection \<open>Statements that depend on the tree alone\<close>

lemma tree_onlyD:
  assumes "tree_only m"
  shows "fst (m w) = fst (on_tree m (files w))" "files (snd (m w)) = snd (on_tree m (files w))"
proof -
  have "files w = files (world_of (files w))"
    by (simp add: world_of_def)
  from assms [unfolded tree_only_def, rule_format, OF this]
  show "fst (m w) = fst (on_tree m (files w))" "files (snd (m w)) = snd (on_tree m (files w))"
    by (simp_all add: on_tree_def)
qed

lemma tree_onlyI:
  assumes "\<And>w w'. files w = files w' \<Longrightarrow>
    fst (m w) = fst (m w') \<and> files (snd (m w)) = files (snd (m w'))"
  shows "tree_only m"
  unfolding tree_only_def using assms by blast

lemma tree_only_andThen:
  assumes "tree_only m" "\<And>x. tree_only (f x)"
  shows "tree_only (andThen m f)"
proof (rule tree_onlyI)
  fix w w' :: world
  assume same: "files w = files w'"
  obtain r w1 where m: "m w = (r, w1)" by (cases "m w")
  obtain r' w1' where m': "m w' = (r', w1')" by (cases "m w'")
  from assms(1) [unfolded tree_only_def, rule_format, OF same] m m'
  have r: "r' = r" and w1: "files w1 = files w1'"
    by simp_all
  show "fst (andThen m f w) = fst (andThen m f w') \<and>
    files (snd (andThen m f w)) = files (snd (andThen m f w'))"
  proof (cases r)
    case (Inl e)
    with m m' r w1 show ?thesis by (simp add: andThen_def)
  next
    case (Inr x)
    with m m' r w1 assms(2) [of x, unfolded tree_only_def, rule_format, OF w1] show ?thesis
      by (simp add: andThen_def)
  qed
qed

lemma tree_only_exists:
  assumes "tree_only a" "tree_only b"
  shows "tree_only (\<lambda>w. if \<not> existsSync p w then a w else b w)"
proof (rule tree_onlyI)
  fix w w' :: world
  assume same: "files w = files w'"
  then have "existsSync p w = existsSync p w'"
    by (simp add: existsSync_def)
  with assms(1) [unfolded tree_only_def, rule_format, OF same]
    assms(2) [unfolded tree_only_def, rule_format, OF same]
  show "fst (if \<not> existsSync p w then a w else b w) =
      fst (if \<not> existsSync p w' then a w' else b w') \<and>
    files (snd (if \<not> existsSync p w then a w else b w)) =
      files (snd (if \<not> existsSync p w' then a w' else b w'))"
    by simp
qed

lemma tree_only_basic:
  "tree_only (js_return x)" "tree_only (js_throw e)" "tree_only (js_eval r)"
  "tree_only (console_log s)" "tree_only (console_warn s)"
  by (rule tree_onlyI, simp add: js_return_def js_throw_def js_eval_def console_log_def
      console_warn_def split: sum.splits)+

lemma tree_only_readFileSync: "tree_only (readFileSync p)"
proof (rule tree_onlyI)
  fix w w' :: world
  assume "files w = files w'"
  then show "fst (readFileSync p w) = fst (readFileSync p w') \<and>
    files (snd (readFileSync p w)) = files (snd (readFileSync p w'))"
    by (cases "node_at p (files w')") (simp_all add: readFileSync_def split: node.splits)
qed

lemma tree_only_writeFileSync: "tree_only (writeFileSync g c)"
proof (rule tree_onlyI)
  fix w w' :: world
  assume "files w = files w'"
  then show "fst (writeFileSync g c w) = fst (writeFileSync g c w') \<and>
    files (snd (writeFileSync g c w)) = files (snd (writeFileSync g c w'))"
    by (cases "store_file g c (files w')") (simp_all add: writeFileSync_def)
qed

lemma tree_only_mkdirSync: "tree_only (mkdirSync_recursive d)"
proof (rule tree_onlyI)
  fix w w' :: world
  assume "files w = files w'"
  then show "fst (mkdirSync_recursive d w) = fst (mkdirSync_recursive d w') \<and>
    files (snd (mkdirSync_recursive d w)) = files (snd (mkdirSync_recursive d w'))"
    by (cases "make_dirs d (files w')") (simp_all add: mkdirSync_recursive_def)
qed

lemma tree_only_ensureDir: "tree_only (ensureDir d)"
  unfolding ensureDir_def
  by (intro tree_only_exists tree_only_mkdirSync tree_only_basic)

lemmas tree_only_intros = tree_only_andThen tree_only_exists tree_only_basic
  tree_only_readFileSync tree_only_writeFileSync tree_only_ensureDir

lemma tree_only_updateRouter: "tree_only (updateRouter root)"
  unfolding updateRouter_def Let_def by (intro tree_only_intros)

lemma tree_only_updateApplicationTemplate:
  "tree_only (updateApplicationTemplate root addonName repoUrl)"
  unfolding updateApplicationTemplate_def Let_def by (intro tree_only_intros)

lemma tree_only_createDocsIndex: "tree_only (createDocsIndex root addonRoot)"
  unfolding createDocsIndex_def Let_def by (intro tree_only_intros)

lemma tree_only_createIndexLayout: "tree_only (createIndexLayout binding root)"
  unfolding createIndexLayout_def Let_def
  by (cases binding) (simp_all, intro tree_only_intros, intro tree_only_intros)

lemma tree_only_createDocsLayout: "tree_only (createDocsLayout root)"
  unfolding createDocsLayout_def Let_def by (intro tree_only_intros)

lemma tree_only_getParentPackageInfo: "tree_only (getParentPackageInfo JSON_parse addonRoot)"
  unfolding getParentPackageInfo_def Let_def by (intro tree_only_intros)

lemmas tree_only_emitters =
  tree_only_updateRouter tree_only_updateApplicationTemplate tree_only_createDocsIndex
  tree_only_createIndexLayout tree_only_createDocsLayout tree_only_getParentPackageInfo

lemma on_tree_andThen:
  assumes "\<And>x. tree_only (f x)"
  shows "on_tree (andThen m f) t =
    (case on_tree m t of (Inl e, t') \<Rightarrow> (Inl e, t') | (Inr x, t') \<Rightarrow> on_tree (f x) t')"
proof -
  obtain r w1 where m: "m (world_of t) = (r, w1)" by (cases "m (world_of t)")
  show ?thesis
  proof (cases r)
    case (Inl e)
    with m show ?thesis by (simp add: on_tree_def andThen_def)
  next
    case (Inr x)
    with m tree_onlyD [OF assms, of x w1] show ?thesis
      by (simp add: on_tree_def andThen_def)
  qed
qed

subsection \<open>Sequencing\<close>

lemma reruns_andThen:
  assumes f: "\<And>x. tree_only (f x)"
    and m: "reruns m" and fx: "\<And>x. reruns (f x)" and st: "\<And>x. stable_under m (f x)"
  shows "reruns (andThen m f)"
  unfolding reruns_def
proof
  fix t
  obtain r t1 where mt: "on_tree m t = (r, t1)" by (cases "on_tree m t")
  from m mt have again: "on_tree m t1 = (r, t1)"
    by (auto simp: reruns_def dest!: spec [of _ t])
  show "on_tree (andThen m f) (snd (on_tree (andThen m f) t)) = on_tree (andThen m f) t"
  proof (cases r)
    case (Inl e)
    with mt again show ?thesis
      by (simp add: on_tree_andThen [OF f])
  next
    case (Inr x)
    obtain r2 t2 where ft: "on_tree (f x) t1 = (r2, t2)" by (cases "on_tree (f x) t1")
    from again Inr have "settled m x t1"
      by (simp add: settled_def)
    with st [of x] ft have "settled m x t2"
      by (auto simp: stable_under_def dest!: spec [of _ t1])
    then have m2: "on_tree m t2 = (Inr x, t2)"
      by (simp add: settled_def)
    from fx [of x] ft have "on_tree (f x) t2 = (r2, t2)"
      by (auto simp: reruns_def dest!: spec [of _ t1])
    with mt Inr ft m2 show ?thesis
      by (simp add: on_tree_andThen [OF f])
  qed
qed

lemma stable_under_looks_at:
  assumes "looks_at qs m" "\<And>q. q \<in> set qs \<Longrightarrow> keeps q k"
  shows "stable_under m k"
  unfolding stable_under_def
proof (intro allI impI)
  fix t x
  assume s: "settled m x t"
  have "stat q (snd (on_tree k t)) = stat q t" if "q \<in> set qs" for q
    using assms(2) [OF that] by (simp add: keeps_def on_tree_def world_of_def)
  with assms(1) [unfolded looks_at_def, rule_format, of "snd (on_tree k t)" t x] s
  show "settled m x (snd (on_tree k t))"
    by blast
qed


subsection \<open>Primitives on a tree\<close>

lemma on_tree_basic:
  "on_tree (js_return x) t = (Inr x, t)"
  "on_tree (js_throw e) t = (Inl e, t)"
  "on_tree (js_eval r) t = (r, t)"
  "on_tree (console_log s) t = (Inr (), t)"
  "on_tree (console_warn s) t = (Inr (), t)"
  by (simp_all add: on_tree_def js_return_def js_throw_def js_eval_def console_log_def
      console_warn_def world_of_def split: sum.splits)

lemma on_tree_writeFileSync:
  "on_tree (writeFileSync g c) t =
    (case store_file g c t of
       Inl e \<Rightarrow> (Inl (SystemError e ''open'' g), t)
     | Inr t' \<Rightarrow> (Inr (), t'))"
  by (simp add: on_tree_def writeFileSync_def world_of_def split: sum.splits)

lemma on_tree_readFileSync:
  "stat p t = Some (IsFile c) \<Longrightarrow> on_tree (readFileSync p) t = (Inr (utf8_text c), t)"
  "stat p t = Some IsDir \<Longrightarrow> on_tree (readFileSync p) t = (Inl (SystemError EISDIR ''read'' p), t)"
  by (simp_all add: on_tree_def readFileSync_file readFileSync_dir world_of_def)

lemma quiet_readFileSync: "quiet (readFileSync p)"
  unfolding quiet_def
proof
  fix t
  show "snd (on_tree (readFileSync p) t) = t"
    by (cases "node_at p t") (simp_all add: on_tree_def readFileSync_def world_of_def split: node.splits)
qed

lemma on_tree_ensureDir_there:
  "stat d t \<noteq> None \<Longrightarrow> on_tree (ensureDir d) t = (Inr (), t)"
  by (simp add: on_tree_def ensureDir_exists world_of_def)

lemma on_tree_exists:
  "on_tree (\<lambda>w. if \<not> existsSync p w then a w else b w) t =
    (if stat p t = None then on_tree a t else on_tree b t)"
  by (simp add: on_tree_def existsSync_stat world_of_def)

lemma on_tree_keeps: "keeps q m \<Longrightarrow> stat q (snd (on_tree m t)) = stat q t"
  by (simp add: keeps_def on_tree_def world_of_def)

subsection \<open>Quiet statements\<close>

lemma quiet_basic:
  "quiet (js_return x)" "quiet (js_throw e)" "quiet (js_eval r)"
  "quiet (console_log s)" "quiet (console_warn s)"
  by (simp_all add: quiet_def on_tree_basic)

lemma quiet_andThen:
  assumes "quiet m" "\<And>x. quiet (f x)" "\<And>x. tree_only (f x)"
  shows "quiet (andThen m f)"
  unfolding quiet_def
proof
  fix t
  obtain r t1 where mt: "on_tree m t = (r, t1)" by (cases "on_tree m t")
  with assms(1) have "t1 = t"
    by (auto simp: quiet_def dest!: spec [of _ t])
  with mt assms(2) show "snd (on_tree (andThen m f) t) = t"
    by (cases r) (simp_all add: on_tree_andThen [OF assms(3)] quiet_def)
qed

lemma quiet_exists:
  assumes "quiet a" "quiet b"
  shows "quiet (\<lambda>w. if \<not> existsSync p w then a w else b w)"
  using assms by (simp add: quiet_def on_tree_exists)

lemma quiet_getParentPackageInfo: "quiet (getParentPackageInfo JSON_parse addonRoot)"
  unfolding getParentPackageInfo_def Let_def
  by (intro quiet_exists quiet_andThen quiet_basic quiet_readFileSync tree_only_intros)

lemma reruns_quiet: "quiet m \<Longrightarrow> reruns m"
  by (simp add: reruns_def quiet_def)

lemma stable_under_quiet: "quiet k \<Longrightarrow> stable_under m k"
  by (simp add: stable_under_def quiet_def)

lemma looks_at_mono: "looks_at qs m \<Longrightarrow> set qs \<subseteq> set qs' \<Longrightarrow> looks_at qs' m"
  unfolding looks_at_def by blast

lemma looks_at_constant:
  assumes "\<And>t t' x. settled m x t \<Longrightarrow> settled m x t'"
  shows "looks_at qs m"
  unfolding looks_at_def using assms by blast

lemma looks_at_basic:
  "looks_at qs (js_eval r)" "looks_at qs (console_log s)" "looks_at qs (console_warn s)"
  by (rule looks_at_constant, simp add: settled_def on_tree_basic)+

subsection \<open>Writing a file\<close>

lemma settled_write:
  "settled (writeFileSync g c) u t = (stat g t = Some (IsFile c))"
proof
  assume "settled (writeFileSync g c) u t"
  then have "store_file g c t = Inr t"
    by (simp add: settled_def on_tree_writeFileSync split: sum.splits)
  from stat_store_file [OF this, of g] show "stat g t = Some (IsFile c)"
    by simp
next
  assume "stat g t = Some (IsFile c)"
  then show "settled (writeFileSync g c) u t"
    by (simp add: settled_def on_tree_writeFileSync store_file_same)
qed

lemma reruns_write: "reruns (writeFileSync g c)"
  unfolding reruns_def
proof
  fix t
  show "on_tree (writeFileSync g c) (snd (on_tree (writeFileSync g c) t)) =
    on_tree (writeFileSync g c) t"
  proof (cases "store_file g c t")
    case (Inl e)
    then show ?thesis by (simp add: on_tree_writeFileSync)
  next
    case (Inr t')
    from stat_store_file [OF this, of g] have "stat g t' = Some (IsFile c)" by simp
    then have "store_file g c t' = Inr t'" by (rule store_file_same)
    with Inr show ?thesis by (simp add: on_tree_writeFileSync)
  qed
qed

lemma stat_after_write:
  "q \<noteq> g \<Longrightarrow> stat q (snd (on_tree (writeFileSync g c) t)) = stat q t"
  by (rule on_tree_keeps) (rule keeps_writeFileSync)

text \<open>Statements with the same outcome and tree.\<close>

lemma same_on_tree:
  assumes "\<And>t. on_tree m t = on_tree m' t"
  shows "reruns m = reruns m'" "settled m x t = settled m' x t" "quiet m = quiet m'"
  by (simp_all add: reruns_def settled_def quiet_def assms)

lemma on_tree_then_log:
  fixes m :: "unit js"
  shows "on_tree (andThen m (\<lambda>_. console_log s)) t = on_tree m t"
  by (cases "on_tree m t")
    (simp add: on_tree_andThen tree_only_basic on_tree_basic split: sum.splits)

lemma on_tree_warn_then:
  assumes "tree_only m"
  shows "on_tree (andThen (console_warn s) (\<lambda>_. m)) t = on_tree m t"
  by (simp add: on_tree_andThen assms on_tree_basic)

lemma on_tree_eval_then:
  assumes "\<And>x. tree_only (f x)"
  shows "on_tree (andThen (js_eval r) f) t =
    (case r of Inl e \<Rightarrow> (Inl e, t) | Inr x \<Rightarrow> on_tree (f x) t)"
  by (simp add: on_tree_andThen [OF assms] on_tree_basic split: sum.splits)

subsection \<open>Ensuring the directory first\<close>

lemma on_tree_ensureDir:
  "on_tree (ensureDir d) t =
    (if stat d t \<noteq> None then (Inr (), t)
     else (case make_dirs d t of
             Inl e \<Rightarrow> (Inl (SystemError e ''mkdir'' d), t)
           | Inr t1 \<Rightarrow> (Inr (), t1)))"
  by (simp add: on_tree_def ensureDir_def existsSync_stat mkdirSync_recursive_def js_return_def
      world_of_def split: sum.splits)

lemma ensured:
  assumes "on_tree (ensureDir d) t = (Inr u, t1)"
  shows "stat d t1 \<noteq> None"
proof (cases "stat d t")
  case None
  with assms have "make_dirs d t = Inr t1"
    by (simp add: on_tree_ensureDir split: sum.splits)
  from stat_make_dirs [OF this, of d] show ?thesis by simp
next
  case (Some k)
  with assms show ?thesis by (simp add: on_tree_ensureDir)
qed

lemma reruns_ensure:
  assumes k: "tree_only k" "reruns k"
    and keep: "\<And>t. stat d t \<noteq> None \<Longrightarrow> stat d (snd (on_tree k t)) \<noteq> None"
  shows "reruns (andThen (ensureDir d) (\<lambda>_. k))"
  unfolding reruns_def
proof
  fix t
  let ?E = "andThen (ensureDir d) (\<lambda>_. k)"
  have E: "on_tree ?E t' =
      (case on_tree (ensureDir d) t' of (Inl e, t1) \<Rightarrow> (Inl e, t1) | (Inr x, t1) \<Rightarrow> on_tree k t1)"
    for t'
    by (rule on_tree_andThen) (rule k)
  have there: "on_tree ?E t' = on_tree k t'" if "stat d t' \<noteq> None" for t'
    using that by (simp add: E on_tree_ensureDir)
  obtain r t1 where e: "on_tree (ensureDir d) t = (r, t1)"
    by (cases "on_tree (ensureDir d) t")
  show "on_tree ?E (snd (on_tree ?E t)) = on_tree ?E t"
  proof (cases r)
    case (Inl x)
    with e have "t1 = t"
      by (auto simp: on_tree_ensureDir split: if_splits sum.splits)
    with e Inl show ?thesis
      by (simp add: E)
  next
    case (Inr u)
    with e have d1: "stat d t1 \<noteq> None"
      by (auto dest: ensured)
    from e Inr have first: "on_tree ?E t = on_tree k t1"
      by (simp add: E)
    from keep [OF d1] have "stat d (snd (on_tree k t1)) \<noteq> None" .
    then have "on_tree ?E (snd (on_tree k t1)) = on_tree k (snd (on_tree k t1))"
      by (rule there)
    also from k(2) have "\<dots> = on_tree k t1"
      by (simp add: reruns_def)
    finally show ?thesis
      by (simp add: first)
  qed
qed

lemma settled_ensure:
  assumes k: "tree_only k"
    and keep: "\<And>t. stat d t \<noteq> None \<Longrightarrow> stat d (snd (on_tree k t)) \<noteq> None"
  shows "settled (andThen (ensureDir d) (\<lambda>_. k)) x t = (stat d t \<noteq> None \<and> settled k x t)"
proof
  let ?E = "andThen (ensureDir d) (\<lambda>_. k)"
  have E: "on_tree ?E t' =
      (case on_tree (ensureDir d) t' of (Inl e, t1) \<Rightarrow> (Inl e, t1) | (Inr x, t1) \<Rightarrow> on_tree k t1)"
    for t'
    by (rule on_tree_andThen) (rule k)
  {
    assume s: "settled ?E x t"
    obtain r t1 where e: "on_tree (ensureDir d) t = (r, t1)"
      by (cases "on_tree (ensureDir d) t")
    from s e obtain u where r: "r = Inr u" and kt1: "on_tree k t1 = (Inr x, t)"
      by (cases r) (auto simp: settled_def E)
    from e r have "stat d t1 \<noteq> None"
      by (auto dest: ensured)
    from keep [OF this] kt1 have d: "stat d t \<noteq> None"
      by simp
    then have "on_tree ?E t = on_tree k t"
      by (simp add: E on_tree_ensureDir)
    with s d show "stat d t \<noteq> None \<and> settled k x t"
      by (simp add: settled_def)
  }
  {
    assume "stat d t \<noteq> None \<and> settled k x t"
    then show "settled ?E x t"
      by (simp add: settled_def E on_tree_ensureDir)
  }
qed


subsection \<open>An emitter: choose the text, write it\<close>

text \<open>
  After \<^verbatim>\<open>ensureDir\<close> every emitter does the same: from the tree it takes the text to
  write, or an exception to throw (\<open>sel\<close>), and writes that text to its target \<open>g\<close>.
\<close>

lemma body_facts:
  assumes nf: "\<And>t. on_tree k t =
      (case sel t of Inl e \<Rightarrow> (Inl e, t) | Inr c \<Rightarrow> on_tree (writeFileSync g c) t)"
    and inv: "\<And>t c. sel (snd (on_tree (writeFileSync g c) t)) = sel t"
  shows "reruns k"
    and "settled k u t = (\<exists>c. sel t = Inr c \<and> stat g t = Some (IsFile c))"
    and "q \<noteq> g \<Longrightarrow> stat q (snd (on_tree k t)) = stat q t"
proof -
  show "reruns k"
    unfolding reruns_def
  proof
    fix t
    show "on_tree k (snd (on_tree k t)) = on_tree k t"
    proof (cases "sel t")
      case (Inl e)
      then show ?thesis by (simp add: nf)
    next
      case (Inr c)
      then have first: "on_tree k t = on_tree (writeFileSync g c) t"
        by (simp add: nf)
      from inv [of c t] Inr have "sel (snd (on_tree (writeFileSync g c) t)) = Inr c"
        by simp
      then have "on_tree k (snd (on_tree (writeFileSync g c) t)) =
          on_tree (writeFileSync g c) (snd (on_tree (writeFileSync g c) t))"
        by (simp add: nf)
      also have "\<dots> = on_tree (writeFileSync g c) t"
        using reruns_write [of g c] by (simp add: reruns_def)
      finally show ?thesis
        by (simp add: first)
    qed
  qed
  show "settled k u t = (\<exists>c. sel t = Inr c \<and> stat g t = Some (IsFile c))"
  proof (cases "sel t")
    case (Inl e)
    then show ?thesis by (simp add: settled_def nf)
  next
    case (Inr c)
    then have "settled k u t = settled (writeFileSync g c) u t"
      by (simp add: settled_def nf)
    with Inr show ?thesis
      by (simp add: settled_write)
  qed
  show "stat q (snd (on_tree k t)) = stat q t" if "q \<noteq> g"
    using that by (cases "sel t") (simp_all add: nf stat_after_write)
qed

lemma emitter_facts:
  assumes k: "tree_only k"
    and nf: "\<And>t. on_tree k t =
      (case sel t of Inl e \<Rightarrow> (Inl e, t) | Inr c \<Rightarrow> on_tree (writeFileSync (d @ [x]) c) t)"
    and inv: "\<And>t c. sel (snd (on_tree (writeFileSync (d @ [x]) c) t)) = sel t"
  shows "reruns (andThen (ensureDir d) (\<lambda>_. k))"
    and "settled (andThen (ensureDir d) (\<lambda>_. k)) u t =
      (\<exists>c. sel t = Inr c \<and> stat (d @ [x]) t = Some (IsFile c))"
proof -
  note b = body_facts [where k = k and sel = sel and g = "d @ [x]", OF nf inv]
  have keep: "stat d (snd (on_tree k t)) \<noteq> None" if "stat d t \<noteq> None" for t
    using that b(3) [of d t] by (cases "d = d @ [x]") simp_all
  show "reruns (andThen (ensureDir d) (\<lambda>_. k))"
    using k b(1) keep by (rule reruns_ensure)
  have "settled (andThen (ensureDir d) (\<lambda>_. k)) u t = (stat d t \<noteq> None \<and> settled k u t)"
    using k keep by (rule settled_ensure)
  also have "\<dots> = (\<exists>c. sel t = Inr c \<and> stat (d @ [x]) t = Some (IsFile c))"
    using stat_parent [of d x t] by (auto simp: b(2))
  finally show "settled (andThen (ensureDir d) (\<lambda>_. k)) u t =
      (\<exists>c. sel t = Inr c \<and> stat (d @ [x]) t = Some (IsFile c))" .
qed


subsection \<open>The emitters, run again\<close>

lemma createDocsLayout_again:
  "reruns (createDocsLayout root)"
  "settled (createDocsLayout root) u t =
     (stat (root @ [''app'', ''templates'', ''docs.hbs'']) t = Some (IsFile docsText))"
proof -
  let ?d = "root @ [''app'', ''templates'']"
  let ?k = "andThen (writeFileSync (?d @ [''docs.hbs'']) docsText)
    (\<lambda>_. console_log (check_mark @ '' Created docs.hbs''))"
  have shape: "createDocsLayout root = andThen (ensureDir ?d) (\<lambda>_. ?k)"
    by (simp add: createDocsLayout_def Let_def path_join_literals path_dirname_def butlast_append
        trim_docsLayout)
  have k: "tree_only ?k"
    by (intro tree_only_intros)
  have nf: "on_tree ?k t = (case (Inr docsText :: exn + string) of Inl e \<Rightarrow> (Inl e, t)
      | Inr c \<Rightarrow> on_tree (writeFileSync (?d @ [''docs.hbs'']) c) t)" for t
    by (simp add: on_tree_then_log)
  note facts = emitter_facts [where sel = "\<lambda>_. Inr docsText", OF k nf]
  show "reruns (createDocsLayout root)"
    unfolding shape by (rule facts(1)) simp
  show "settled (createDocsLayout root) u t =
     (stat (root @ [''app'', ''templates'', ''docs.hbs'']) t = Some (IsFile docsText))"
    unfolding shape by (subst facts(2)) simp_all
qed

lemma createIndexLayout_again:
  "reruns (createIndexLayout (Some testApp) addonRoot)"
  "settled (createIndexLayout (Some testApp) addonRoot) u t =
     (stat (addonRoot @ [''test-app'', ''app'', ''templates'', ''index.hbs'']) t =
        Some (IsFile indexText))"
proof -
  let ?d = "addonRoot @ [''test-app'', ''app'', ''templates'']"
  let ?k = "andThen (writeFileSync (?d @ [''index.hbs'']) indexText)
    (\<lambda>_. console_log (check_mark @ '' Created index.hbs''))"
  have shape: "createIndexLayout (Some testApp) addonRoot = andThen (ensureDir ?d) (\<lambda>_. ?k)"
    by (simp add: createIndexLayout_def Let_def path_join_literals path_dirname_def butlast_append
        trim_indexLayout)
  have k: "tree_only ?k"
    by (intro tree_only_intros)
  have nf: "on_tree ?k t = (case (Inr indexText :: exn + string) of Inl e \<Rightarrow> (Inl e, t)
      | Inr c \<Rightarrow> on_tree (writeFileSync (?d @ [''index.hbs'']) c) t)" for t
    by (simp add: on_tree_then_log)
  note facts = emitter_facts [where sel = "\<lambda>_. Inr indexText", OF k nf]
  show "reruns (createIndexLayout (Some testApp) addonRoot)"
    unfolding shape by (rule facts(1)) simp
  show "settled (createIndexLayout (Some testApp) addonRoot) u t =
     (stat (addonRoot @ [''test-app'', ''app'', ''templates'', ''index.hbs'']) t =
        Some (IsFile indexText))"
    unfolding shape by (subst facts(2)) simp_all
qed

lemma createIndexLayout_unbound_again:
  "reruns (createIndexLayout None root)" "\<not> settled (createIndexLayout None root) u t"
  by (simp_all add: createIndexLayout_def reruns_def settled_def on_tree_basic)

lemma updateApplicationTemplate_again:
  "reruns (updateApplicationTemplate root addonName repoUrl)"
  "settled (updateApplicationTemplate root addonName repoUrl) u t =
     (\<exists>nameText repoText. js_to_string addonName = Inr nameText \<and>
        js_to_string repoUrl = Inr repoText \<and>
        stat (root @ [''app'', ''templates'', ''application.hbs'']) t =
          Some (IsFile (applicationText nameText repoText)))"
proof -
  let ?d = "root @ [''app'', ''templates'']"
  let ?k = "andThen (js_eval (js_to_string addonName)) (\<lambda>nameText.
      andThen (js_eval (js_to_string repoUrl)) (\<lambda>repoText.
      andThen (writeFileSync (?d @ [''application.hbs'']) (applicationText nameText repoText)) (\<lambda>_.
      console_log (check_mark @ '' Updated application.hbs''))))"
  let ?sel = "\<lambda>_ :: node. case js_to_string addonName of Inl e \<Rightarrow> Inl e
      | Inr nameText \<Rightarrow> (case js_to_string repoUrl of Inl e \<Rightarrow> Inl e
          | Inr repoText \<Rightarrow> Inr (applicationText nameText repoText))"
  have shape: "updateApplicationTemplate root addonName repoUrl = andThen (ensureDir ?d) (\<lambda>_. ?k)"
    by (simp add: updateApplicationTemplate_def Let_def path_join_literals path_dirname_def
        butlast_append trim_applicationContent)
  have k: "tree_only ?k"
    by (intro tree_only_intros)
  have nf: "on_tree ?k t = (case ?sel t of Inl e \<Rightarrow> (Inl e, t)
      | Inr c \<Rightarrow> on_tree (writeFileSync (?d @ [''application.hbs'']) c) t)" for t
    by (simp add: on_tree_eval_then on_tree_then_log tree_only_intros split: sum.splits)
  note facts = emitter_facts [where sel = ?sel, OF k nf]
  show "reruns (updateApplicationTemplate root addonName repoUrl)"
    unfolding shape by (rule facts(1)) simp
  show "settled (updateApplicationTemplate root addonName repoUrl) u t =
     (\<exists>nameText repoText. js_to_string addonName = Inr nameText \<and>
        js_to_string repoUrl = Inr repoText \<and>
        stat (root @ [''app'', ''templates'', ''application.hbs'']) t =
          Some (IsFile (applicationText nameText repoText)))"
    unfolding shape by (subst facts(2)) (auto split: sum.splits)
qed


lemma createDocsIndex_again:
  "reruns (createDocsIndex root addonRoot)"
  "settled (createDocsIndex root addonRoot) u t =
     (case stat (addonRoot @ [''README.md'']) t of
        None \<Rightarrow> stat (root @ [''app'', ''templates'', ''docs'', ''index.md'']) t =
          Some (IsFile placeholderContent)
      | Some (IsFile c) \<Rightarrow> stat (root @ [''app'', ''templates'', ''docs'', ''index.md'']) t =
          Some (IsFile (utf8_text c))
      | Some IsDir \<Rightarrow> False)"
proof -
  let ?d = "root @ [''app'', ''templates'', ''docs'']"
  let ?r = "addonRoot @ [''README.md'']"
  let ?k = "\<lambda>w. if \<not> existsSync ?r w
           then andThen
                  (console_warn
                     (warning_sign @ '' README.md not found, creating a placeholder index.md.''))
                  (\<lambda>_. writeFileSync (?d @ [''index.md'']) placeholderContent) w
           else andThen (readFileSync ?r) (\<lambda>readmeContent.
                andThen (writeFileSync (?d @ [''index.md'']) readmeContent) (\<lambda>_.
                console_log (check_mark @ '' Created docs/index.md from README.md''))) w"
  let ?sel = "\<lambda>t. case stat ?r t of None \<Rightarrow> Inr placeholderContent
      | Some (IsFile c) \<Rightarrow> Inr (utf8_text c)
      | Some IsDir \<Rightarrow> Inl (SystemError EISDIR ''read'' ?r)"
  have shape: "createDocsIndex root addonRoot = andThen (ensureDir ?d) (\<lambda>_. ?k)"
    by (simp add: createDocsIndex_def Let_def path_join_literals)
  have k: "tree_only ?k"
    by (intro tree_only_intros)
  have nf: "on_tree ?k t = (case ?sel t of Inl e \<Rightarrow> (Inl e, t)
      | Inr c \<Rightarrow> on_tree (writeFileSync (?d @ [''index.md'']) c) t)" for t
  proof (cases "stat ?r t")
    case None
    then show ?thesis
      by (simp add: on_tree_exists on_tree_warn_then tree_only_intros)
  next
    case (Some e)
    show ?thesis
    proof (cases e)
      case (IsFile c)
      with Some show ?thesis
        by (simp add: on_tree_exists on_tree_andThen tree_only_intros on_tree_readFileSync
            on_tree_then_log)
    next
      case IsDir
      with Some show ?thesis
        by (simp add: on_tree_exists on_tree_andThen tree_only_intros on_tree_readFileSync)
    qed
  qed
  have inv: "?sel (snd (on_tree (writeFileSync (?d @ [''index.md'']) c) t)) = ?sel t" for t c
    by (simp add: stat_after_write)
  note facts = emitter_facts [where sel = ?sel, OF k nf inv]
  show "reruns (createDocsIndex root addonRoot)"
    unfolding shape by (rule facts(1))
  show "settled (createDocsIndex root addonRoot) u t =
     (case stat ?r t of
        None \<Rightarrow> stat (root @ [''app'', ''templates'', ''docs'', ''index.md'']) t =
          Some (IsFile placeholderContent)
      | Some (IsFile c) \<Rightarrow> stat (root @ [''app'', ''templates'', ''docs'', ''index.md'']) t =
          Some (IsFile (utf8_text c))
      | Some IsDir \<Rightarrow> False)"
    unfolding shape by (subst facts(2)) (auto split: option.splits entry.splits)
qed

lemma updateRouter_again:
  "reruns (updateRouter root)"
  "settled (updateRouter root) u t =
     (stat (root @ [''app'', ''router.js'']) t = None \<or>
      stat (root @ [''app'', ''router.js'']) t = Some (IsFile routerContent))"
proof -
  let ?g = "root @ [''app'', ''router.js'']"
  have nf: "on_tree (updateRouter root) t =
      (if stat ?g t = None then (Inr (), t) else on_tree (writeFileSync ?g routerContent) t)" for t
    by (simp add: updateRouter_def Let_def path_join_literals on_tree_exists on_tree_basic
        on_tree_then_log)
  have there: "stat ?g (snd (on_tree (writeFileSync ?g routerContent) t)) \<noteq> None"
    if "stat ?g t \<noteq> None" for t
  proof (cases "store_file ?g routerContent t")
    case (Inl e)
    with that show ?thesis by (simp add: on_tree_writeFileSync)
  next
    case (Inr t')
    with stat_store_file [OF Inr, of ?g] show ?thesis by (simp add: on_tree_writeFileSync)
  qed
  show "reruns (updateRouter root)"
    unfolding reruns_def
  proof
    fix t
    show "on_tree (updateRouter root) (snd (on_tree (updateRouter root) t)) =
      on_tree (updateRouter root) t"
    proof (cases "stat ?g t = None")
      case True
      then show ?thesis by (simp add: nf)
    next
      case False
      with there [OF False] reruns_write [of ?g routerContent] show ?thesis
        by (auto simp: nf reruns_def)
    qed
  qed
  show "settled (updateRouter root) u t =
     (stat ?g t = None \<or> stat ?g t = Some (IsFile routerContent))"
    using settled_write [of ?g routerContent u t]
    by (auto simp: settled_def nf)
qed

lemma getParentPackageInfo_again:
  "settled (getParentPackageInfo JSON_parse addonRoot) v t =
     (case stat (addonRoot @ [''package.json'']) t of
        None \<Rightarrow> v = JObject []
      | Some (IsFile c) \<Rightarrow> JSON_parse (utf8_text c) = Some v
      | Some IsDir \<Rightarrow> False)"
proof (cases "stat (addonRoot @ [''package.json'']) t")
  case None
  then show ?thesis
    by (auto simp: settled_def getParentPackageInfo_def Let_def path_join_literals on_tree_exists
        on_tree_warn_then tree_only_intros on_tree_basic)
next
  case (Some e)
  show ?thesis
  proof (cases e)
    case (IsFile c)
    with Some show ?thesis
      by (auto simp: settled_def getParentPackageInfo_def Let_def path_join_literals on_tree_exists
          on_tree_andThen tree_only_intros on_tree_readFileSync on_tree_basic
          split: option.splits)
  next
    case IsDir
    with Some show ?thesis
      by (simp add: settled_def getParentPackageInfo_def Let_def path_join_literals on_tree_exists
          on_tree_andThen tree_only_intros on_tree_readFileSync)
  qed
qed

lemma looks_at_emitters:
  "looks_at [root @ [''app'', ''router.js'']] (updateRouter root)"
  "looks_at [root @ [''app'', ''templates'', ''application.hbs'']]
     (updateApplicationTemplate root addonName repoUrl)"
  "looks_at [root @ [''app'', ''templates'', ''docs'', ''index.md''], addonRoot @ [''README.md'']]
     (createDocsIndex root addonRoot)"
  "looks_at [addonRoot @ [''test-app'', ''app'', ''templates'', ''index.hbs'']]
     (createIndexLayout (Some testApp) addonRoot)"
  "looks_at [] (createIndexLayout None root)"
  "looks_at [root @ [''app'', ''templates'', ''docs.hbs'']] (createDocsLayout root)"
  "looks_at [addonRoot @ [''package.json'']] (getParentPackageInfo JSON_parse addonRoot)"
  by (auto simp: looks_at_def updateRouter_again updateApplicationTemplate_again
      createDocsIndex_again createIndexLayout_again createIndexLayout_unbound_again
      createDocsLayout_again getParentPackageInfo_again split: option.splits entry.splits)

subsection \<open>The emitters in sequence\<close>

lemma keeps_createIndexLayout_bound:
  assumes "binding = None \<or> binding = Some testApp \<and> appRoot = layoutRoot @ [''test-app'']"
    and "q \<noteq> appRoot @ [''app'', ''templates'', ''index.hbs'']"
    and "\<not> prefix q (appRoot @ [''app'', ''templates''])"
  shows "keeps q (createIndexLayout binding layoutRoot)"
  using assms keeps_createIndexLayout [of q layoutRoot] by auto

lemma stable_under_never: "(\<And>x t. \<not> settled m x t) \<Longrightarrow> stable_under m k"
  by (simp add: stable_under_def)

lemma createIndexLayout_bound_again:
  assumes "binding = None \<or> binding = Some testApp \<and> appRoot = layoutRoot @ [''test-app'']"
  shows "reruns (createIndexLayout binding layoutRoot)"
    and "looks_at [appRoot @ [''app'', ''templates'', ''index.hbs'']]
      (createIndexLayout binding layoutRoot)"
  using assms createIndexLayout_again(1) [of layoutRoot] createIndexLayout_unbound_again(1)
    looks_at_emitters(4) [of layoutRoot] looks_at_emitters(5) [of layoutRoot]
    looks_at_mono [of "[]" "createIndexLayout None layoutRoot"]
  by auto

lemma emitters_facts:
  assumes bound: "binding = None \<or> binding = Some testApp \<and> appRoot = layoutRoot @ [''test-app'']"
    and apart: "\<not> prefix (addonRoot @ [''README.md'']) (appRoot @ [''app'', ''templates'', ''docs''])"
  shows "tree_only (emitters binding appRoot layoutRoot addonRoot addonName repoUrl)"
    and "reruns (emitters binding appRoot layoutRoot addonRoot addonName repoUrl)"
    and "q \<notin> set [appRoot @ [''app'', ''router.js''],
        appRoot @ [''app'', ''templates'', ''application.hbs''],
        appRoot @ [''app'', ''templates'', ''docs'', ''index.md''],
        appRoot @ [''app'', ''templates'', ''index.hbs''],
        appRoot @ [''app'', ''templates'', ''docs.hbs'']] \<Longrightarrow>
      \<not> prefix q (appRoot @ [''app'', ''templates'', ''docs'']) \<Longrightarrow>
      keeps q (emitters binding appRoot layoutRoot addonRoot addonName repoUrl)"
proof -
  let ?r5 = "console_log
       ([CHR 0x0A] @ party_popper @ '' ember-cli-addon-docs setup completed successfully!'')"
  let ?r4 = "andThen (createDocsLayout appRoot) (\<lambda>_. ?r5)"
  let ?r3 = "andThen (createIndexLayout binding layoutRoot) (\<lambda>_. ?r4)"
  let ?r2 = "andThen (createDocsIndex appRoot addonRoot) (\<lambda>_. ?r3)"
  let ?r1 = "andThen (updateApplicationTemplate appRoot addonName repoUrl) (\<lambda>_. ?r2)"
  let ?r0 = "andThen (updateRouter appRoot) (\<lambda>_. ?r1)"
  let ?templates = "appRoot @ [''app'', ''templates'']"
  have shape: "emitters binding appRoot layoutRoot addonRoot addonName repoUrl = ?r0"
    by (simp add: emitters_def)
  have t5: "tree_only ?r5" by (intro tree_only_intros)
  have t4: "tree_only ?r4" by (intro tree_only_intros tree_only_emitters)
  have t3: "tree_only ?r3" by (intro tree_only_intros tree_only_emitters)
  have t2: "tree_only ?r2" by (intro tree_only_intros tree_only_emitters)
  have t1: "tree_only ?r1" by (intro tree_only_intros tree_only_emitters)
  show "tree_only (emitters binding appRoot layoutRoot addonRoot addonName repoUrl)"
    unfolding shape by (intro tree_only_intros tree_only_emitters)
  have k4: "keeps p ?r4"
    if "p \<noteq> appRoot @ [''app'', ''templates'', ''docs.hbs'']" "\<not> prefix p ?templates" for p
    using that by (intro keeps_andThen keeps_createDocsLayout keeps_pure)
  have k3: "keeps p ?r3"
    if "p \<noteq> appRoot @ [''app'', ''templates'', ''docs.hbs'']"
      "p \<noteq> appRoot @ [''app'', ''templates'', ''index.hbs'']" "\<not> prefix p ?templates" for p
    using that bound by (intro keeps_andThen keeps_createIndexLayout_bound k4)
  have k2: "keeps p ?r2"
    if "p \<noteq> appRoot @ [''app'', ''templates'', ''docs.hbs'']"
      "p \<noteq> appRoot @ [''app'', ''templates'', ''index.hbs'']"
      "p \<noteq> appRoot @ [''app'', ''templates'', ''docs'', ''index.md'']"
      "\<not> prefix p (appRoot @ [''app'', ''templates'', ''docs''])" for p
  proof -
    from that(4) have "\<not> prefix p ?templates"
      using not_prefix_shorter [of p ?templates "''docs''"] by simp
    with that show ?thesis
      by (intro keeps_andThen keeps_createDocsIndex k3)
  qed
  have k1: "keeps p ?r1"
    if "p \<noteq> appRoot @ [''app'', ''templates'', ''docs.hbs'']"
      "p \<noteq> appRoot @ [''app'', ''templates'', ''index.hbs'']"
      "p \<noteq> appRoot @ [''app'', ''templates'', ''docs'', ''index.md'']"
      "p \<noteq> appRoot @ [''app'', ''templates'', ''application.hbs'']"
      "\<not> prefix p (appRoot @ [''app'', ''templates'', ''docs''])" for p
  proof -
    from that(5) have "\<not> prefix p ?templates"
      using not_prefix_shorter [of p ?templates "''docs''"] by simp
    with that show ?thesis
      by (intro keeps_andThen keeps_updateApplicationTemplate k2)
  qed
  show "keeps q (emitters binding appRoot layoutRoot addonRoot addonName repoUrl)"
    if "q \<notin> set [appRoot @ [''app'', ''router.js''],
        appRoot @ [''app'', ''templates'', ''application.hbs''],
        appRoot @ [''app'', ''templates'', ''docs'', ''index.md''],
        appRoot @ [''app'', ''templates'', ''index.hbs''],
        appRoot @ [''app'', ''templates'', ''docs.hbs'']]"
      "\<not> prefix q (appRoot @ [''app'', ''templates'', ''docs''])"
    unfolding shape using that by (intro keeps_andThen keeps_updateRouter k1) simp_all
  have r5: "reruns ?r5"
    by (intro reruns_quiet quiet_basic)
  have r4: "reruns ?r4"
  proof (rule reruns_andThen)
    show "tree_only ?r5" for x :: unit by (rule t5)
    show "reruns (createDocsLayout appRoot)" by (rule createDocsLayout_again)
    show "reruns ?r5" for x :: unit by (rule r5)
    show "stable_under (createDocsLayout appRoot) ?r5" for x :: unit
      by (intro stable_under_quiet quiet_basic)
  qed
  have r3: "reruns ?r3"
  proof (rule reruns_andThen)
    show "tree_only ?r4" for x :: unit by (rule t4)
    show "reruns (createIndexLayout binding layoutRoot)"
      by (rule createIndexLayout_bound_again(1) [OF bound])
    show "reruns ?r4" for x :: unit by (rule r4)
    show "stable_under (createIndexLayout binding layoutRoot) ?r4" for x :: unit
    proof (rule stable_under_looks_at [OF createIndexLayout_bound_again(2) [OF bound]])
      fix p
      assume "p \<in> set [appRoot @ [''app'', ''templates'', ''index.hbs'']]"
      then have p: "p = appRoot @ [''app'', ''templates'', ''index.hbs'']" by simp
      show "keeps p ?r4"
        unfolding p by (rule k4) simp_all
    qed
  qed
  have r2: "reruns ?r2"
  proof (rule reruns_andThen)
    show "tree_only ?r3" for x :: unit by (rule t3)
    show "reruns (createDocsIndex appRoot addonRoot)" by (rule createDocsIndex_again)
    show "reruns ?r3" for x :: unit by (rule r3)
    from apart have "\<not> prefix (addonRoot @ [''README.md'']) ?templates"
      using not_prefix_shorter [of "addonRoot @ [''README.md'']" ?templates "''docs''"] by simp
    then have "keeps (addonRoot @ [''README.md'']) ?r3"
      by (intro k3) simp_all
    moreover have "keeps (appRoot @ [''app'', ''templates'', ''docs'', ''index.md'']) ?r3"
      by (rule k3) simp_all
    ultimately show "stable_under (createDocsIndex appRoot addonRoot) ?r3" for x :: unit
      by (intro stable_under_looks_at [OF looks_at_emitters(3)]) auto
  qed
  have r1: "reruns ?r1"
  proof (rule reruns_andThen)
    show "tree_only ?r2" for x :: unit by (rule t2)
    show "reruns (updateApplicationTemplate appRoot addonName repoUrl)"
      by (rule updateApplicationTemplate_again)
    show "reruns ?r2" for x :: unit by (rule r2)
    have "keeps (appRoot @ [''app'', ''templates'', ''application.hbs'']) ?r2"
      by (rule k2) simp_all
    then show "stable_under (updateApplicationTemplate appRoot addonName repoUrl) ?r2"
      for x :: unit
      by (intro stable_under_looks_at [OF looks_at_emitters(2)]) auto
  qed
  show "reruns (emitters binding appRoot layoutRoot addonRoot addonName repoUrl)"
    unfolding shape
  proof (rule reruns_andThen)
    show "tree_only ?r1" for x :: unit by (rule t1)
    show "reruns (updateRouter appRoot)" by (rule updateRouter_again)
    show "reruns ?r1" for x :: unit by (rule r1)
    have "keeps (appRoot @ [''app'', ''router.js'']) ?r1"
      by (rule k1) simp_all
    then show "stable_under (updateRouter appRoot) ?r1" for x :: unit
      by (intro stable_under_looks_at [OF looks_at_emitters(1)]) auto
  qed
qed

subsection \<open>The whole script\<close>

lemma reruns_log_then:
  assumes "tree_only k" "reruns k"
  shows "reruns (andThen (console_log s) (\<lambda>_. k))"
proof (rule reruns_andThen)
  show "tree_only k" for x :: unit by (rule assms)
  show "reruns (console_log s)" by (intro reruns_quiet quiet_basic)
  show "reruns k" for x :: unit by (rule assms)
  show "stable_under (console_log s) k" for x :: unit
    by (rule stable_under_looks_at [OF looks_at_basic(2) [of "[]"]]) simp
qed

lemma reruns_eval_then:
  assumes "\<And>x. tree_only (f x)" "\<And>x. reruns (f x)"
  shows "reruns (andThen (js_eval r) f)"
proof (rule reruns_andThen)
  show "tree_only (f x)" for x by (rule assms)
  show "reruns (js_eval r)" by (intro reruns_quiet quiet_basic)
  show "reruns (f x)" for x by (rule assms)
  show "stable_under (js_eval r) (f x)" for x
    by (rule stable_under_looks_at [OF looks_at_basic(1) [of "[]"]]) simp
qed

lemma reruns_load_then:
  assumes "\<And>x. tree_only (f x)" "\<And>x. reruns (f x)"
    and "\<And>x. keeps (addonRoot @ [''package.json'']) (f x)"
  shows "reruns (andThen (getParentPackageInfo JSON_parse addonRoot) f)"
proof (rule reruns_andThen)
  show "tree_only (f x)" for x by (rule assms)
  show "reruns (getParentPackageInfo JSON_parse addonRoot)"
    by (intro reruns_quiet quiet_getParentPackageInfo)
  show "reruns (f x)" for x by (rule assms)
  show "stable_under (getParentPackageInfo JSON_parse addonRoot) (f x)" for x
    using assms(3) [of x] by (intro stable_under_looks_at [OF looks_at_emitters(7)]) simp
qed

lemma reruns_from_load:
  assumes t: "\<And>n r. tree_only (E n r)" and r: "\<And>n r. reruns (E n r)"
    and k: "\<And>n r. keeps (addonRoot @ [''package.json'']) (E n r)"
  shows "tree_only (andThen (getParentPackageInfo JSON_parse addonRoot) (\<lambda>packageInfo.
           andThen (js_eval (js_get packageInfo ''name'')) (\<lambda>addonName.
           andThen (js_eval (js_get packageInfo ''repository'')) (\<lambda>repoUrl.
           andThen (js_eval (js_to_string addonName)) (\<lambda>nameText.
           andThen (console_log (s nameText)) (\<lambda>_. E addonName repoUrl))))))"
    and "reruns (andThen (getParentPackageInfo JSON_parse addonRoot) (\<lambda>packageInfo.
           andThen (js_eval (js_get packageInfo ''name'')) (\<lambda>addonName.
           andThen (js_eval (js_get packageInfo ''repository'')) (\<lambda>repoUrl.
           andThen (js_eval (js_to_string addonName)) (\<lambda>nameText.
           andThen (console_log (s nameText)) (\<lambda>_. E addonName repoUrl))))))"
proof -
  show "tree_only (andThen (getParentPackageInfo JSON_parse addonRoot) (\<lambda>packageInfo.
           andThen (js_eval (js_get packageInfo ''name'')) (\<lambda>addonName.
           andThen (js_eval (js_get packageInfo ''repository'')) (\<lambda>repoUrl.
           andThen (js_eval (js_to_string addonName)) (\<lambda>nameText.
           andThen (console_log (s nameText)) (\<lambda>_. E addonName repoUrl))))))"
    by (intro tree_only_intros tree_only_emitters t)
  have a: "tree_only (andThen (console_log (s nt)) (\<lambda>_. E n r))"
    "reruns (andThen (console_log (s nt)) (\<lambda>_. E n r))"
    "keeps (addonRoot @ [''package.json'']) (andThen (console_log (s nt)) (\<lambda>_. E n r))" for nt n r
    by (intro tree_only_intros t reruns_log_then r keeps_andThen keeps_pure k)+
  have b: "tree_only (andThen (js_eval (js_to_string n)) (\<lambda>nt.
        andThen (console_log (s nt)) (\<lambda>_. E n r)))"
    "reruns (andThen (js_eval (js_to_string n)) (\<lambda>nt.
        andThen (console_log (s nt)) (\<lambda>_. E n r)))"
    "keeps (addonRoot @ [''package.json'']) (andThen (js_eval (js_to_string n)) (\<lambda>nt.
        andThen (console_log (s nt)) (\<lambda>_. E n r)))" for n r
    by (intro tree_only_andThen tree_only_basic reruns_eval_then keeps_andThen keeps_pure a)+
  have c: "tree_only (andThen (js_eval (js_get pi ''repository'')) (\<lambda>r.
        andThen (js_eval (js_to_string n)) (\<lambda>nt.
        andThen (console_log (s nt)) (\<lambda>_. E n r))))"
    "reruns (andThen (js_eval (js_get pi ''repository'')) (\<lambda>r.
        andThen (js_eval (js_to_string n)) (\<lambda>nt.
        andThen (console_log (s nt)) (\<lambda>_. E n r))))"
    "keeps (addonRoot @ [''package.json'']) (andThen (js_eval (js_get pi ''repository'')) (\<lambda>r.
        andThen (js_eval (js_to_string n)) (\<lambda>nt.
        andThen (console_log (s nt)) (\<lambda>_. E n r))))" for pi n
    by (intro tree_only_andThen tree_only_basic reruns_eval_then keeps_andThen keeps_pure b)+
  have d: "tree_only (andThen (js_eval (js_get pi ''name'')) (\<lambda>n.
        andThen (js_eval (js_get pi ''repository'')) (\<lambda>r.
        andThen (js_eval (js_to_string n)) (\<lambda>nt.
        andThen (console_log (s nt)) (\<lambda>_. E n r)))))"
    "reruns (andThen (js_eval (js_get pi ''name'')) (\<lambda>n.
        andThen (js_eval (js_get pi ''repository'')) (\<lambda>r.
        andThen (js_eval (js_to_string n)) (\<lambda>nt.
        andThen (console_log (s nt)) (\<lambda>_. E n r)))))"
    "keeps (addonRoot @ [''package.json'']) (andThen (js_eval (js_get pi ''name'')) (\<lambda>n.
        andThen (js_eval (js_get pi ''repository'')) (\<lambda>r.
        andThen (js_eval (js_to_string n)) (\<lambda>nt.
        andThen (console_log (s nt)) (\<lambda>_. E n r)))))" for pi
    by (intro tree_only_andThen tree_only_basic reruns_eval_then keeps_andThen keeps_pure c)+
  show "reruns (andThen (getParentPackageInfo JSON_parse addonRoot) (\<lambda>packageInfo.
           andThen (js_eval (js_get packageInfo ''name'')) (\<lambda>addonName.
           andThen (js_eval (js_get packageInfo ''repository'')) (\<lambda>repoUrl.
           andThen (js_eval (js_to_string addonName)) (\<lambda>nameText.
           andThen (console_log (s nameText)) (\<lambda>_. E addonName repoUrl))))))"
    by (rule reruns_load_then) (rule d)+
qed


lemma manifest_apart:
  "path_resolve root [''..'', ''addon''] @ [''package.json''] \<notin>
     set [root @ [''app'', ''router.js''],
        root @ [''app'', ''templates'', ''application.hbs''],
        root @ [''app'', ''templates'', ''docs'', ''index.md''],
        root @ [''app'', ''templates'', ''index.hbs''],
        root @ [''app'', ''templates'', ''docs.hbs'']]"
  "\<not> prefix (path_resolve root [''..'', ''addon''] @ [''package.json''])
     (root @ [''app'', ''templates'', ''docs''])"
  "a @ [''package.json''] \<notin>
     set [(a @ [''test-app'']) @ [''app'', ''router.js''],
        (a @ [''test-app'']) @ [''app'', ''templates'', ''application.hbs''],
        (a @ [''test-app'']) @ [''app'', ''templates'', ''docs'', ''index.md''],
        (a @ [''test-app'']) @ [''app'', ''templates'', ''index.hbs''],
        (a @ [''test-app'']) @ [''app'', ''templates'', ''docs.hbs'']]"
  "\<not> prefix (a @ [''package.json'']) ((a @ [''test-app'']) @ [''app'', ''templates'', ''docs''])"
  by (cases root rule: rev_cases; simp add: path_resolve_addon)+

lemma setupDoc_again:
  "tree_only (setupDoc JSON_parse INIT_CWD)" "reruns (setupDoc JSON_parse INIT_CWD)"
proof -
  have "tree_only (setupDoc JSON_parse INIT_CWD) \<and> reruns (setupDoc JSON_parse INIT_CWD)"
  proof (cases INIT_CWD)
    case None
    then show ?thesis
      by (simp add: setupDoc_def tree_only_basic reruns_quiet quiet_basic)
  next
    case (Some root)
    let ?a = "path_resolve root [''..'', ''addon'']"
    let ?E = "emitters None root root ?a"
    let ?s = "\<lambda>nameText. rocket @ '' Setting up ember-cli-addon-docs for '' @ nameText @ ''...'' @ [CHR 0x0A]"
    let ?load = "andThen (getParentPackageInfo JSON_parse ?a) (\<lambda>packageInfo.
           andThen (js_eval (js_get packageInfo ''name'')) (\<lambda>addonName.
           andThen (js_eval (js_get packageInfo ''repository'')) (\<lambda>repoUrl.
           andThen (js_eval (js_to_string addonName)) (\<lambda>nameText.
           andThen (console_log (?s nameText)) (\<lambda>_. ?E addonName repoUrl)))))"
    have shape: "setupDoc JSON_parse INIT_CWD =
        andThen (console_log (''addon root ------>  '' @ path_str ?a)) (\<lambda>_.
        andThen (console_log (''test-app root ------>  '' @ path_str root)) (\<lambda>_. ?load))"
      by (simp add: Some setupDoc_def emitters_def Let_def)
    note e = emitters_facts [of None root root ?a, OF _ readme_not_above_docs(1)]
    have t: "tree_only (?E n r)" and r: "reruns (?E n r)"
      and k: "keeps (?a @ [''package.json'']) (?E n r)" for n r
      using e(1) [of n r] e(2) [of n r] e(3) [OF _ manifest_apart(1) manifest_apart(2), of n r]
      by simp_all
    note l = reruns_from_load [of ?E ?a JSON_parse ?s, OF t r k]
    have 2: "tree_only (andThen (console_log (''test-app root ------>  '' @ path_str root)) (\<lambda>_. ?load))"
      "reruns (andThen (console_log (''test-app root ------>  '' @ path_str root)) (\<lambda>_. ?load))"
      by (intro tree_only_andThen tree_only_basic l(1), intro reruns_log_then l)
    show ?thesis
      unfolding shape
      by (intro conjI tree_only_andThen tree_only_basic reruns_log_then 2)
  qed
  then show "tree_only (setupDoc JSON_parse INIT_CWD)" "reruns (setupDoc JSON_parse INIT_CWD)"
    by simp_all
qed

lemma setupDoc_part000_again:
  "tree_only (setupDoc_part000 JSON_parse INIT_CWD)" "reruns (setupDoc_part000 JSON_parse INIT_CWD)"
proof -
  have "tree_only (setupDoc_part000 JSON_parse INIT_CWD) \<and>
    reruns (setupDoc_part000 JSON_parse INIT_CWD)"
  proof (cases INIT_CWD)
    case None
    then show ?thesis
      by (simp add: setupDoc_part000_def tree_only_basic reruns_quiet quiet_basic)
  next
    case (Some cwd)
    let ?a = "path_resolve cwd [''..'', ''addon'']"
    let ?E = "emitters (Some testApp) (?a @ [''test-app'']) ?a ?a"
    let ?s = "\<lambda>nameText. rocket @ '' Setting up ember-cli-addon-docs for '' @ nameText @ ''...'' @ [CHR 0x0A]"
    let ?load = "andThen (getParentPackageInfo JSON_parse ?a) (\<lambda>packageInfo.
           andThen (js_eval (js_get packageInfo ''name'')) (\<lambda>addonName.
           andThen (js_eval (js_get packageInfo ''repository'')) (\<lambda>repoUrl.
           andThen (js_eval (js_to_string addonName)) (\<lambda>nameText.
           andThen (console_log (?s nameText)) (\<lambda>_. ?E addonName repoUrl)))))"
    have shape: "setupDoc_part000 JSON_parse INIT_CWD =
        andThen (console_log (''ADDON ROOT ------>  '' @ path_str ?a)) (\<lambda>_. ?load)"
      by (simp add: Some setupDoc_part000_def emitters_def Let_def updateRouter_part000
          updateApplicationTemplate_part000 createDocsIndex_part000 createDocsLayout_part000)
    note e = emitters_facts [of "Some testApp" "?a @ [''test-app'']" ?a ?a,
        OF _ readme_not_above_docs(2)]
    have t: "tree_only (?E n r)" and r: "reruns (?E n r)"
      and k: "keeps (?a @ [''package.json'']) (?E n r)" for n r
      using e(1) [of n r] e(2) [of n r] e(3) [OF _ manifest_apart(3) manifest_apart(4), of n r]
      by simp_all
    note l = reruns_from_load [of ?E ?a JSON_parse ?s, OF t r k]
    show ?thesis
      unfolding shape
      by (intro conjI tree_only_andThen tree_only_basic reruns_log_then l)
  qed
  then show "tree_only (setupDoc_part000 JSON_parse INIT_CWD)"
    "reruns (setupDoc_part000 JSON_parse INIT_CWD)"
    by simp_all
qed

lemma second_run:
  assumes "tree_only m" "reruns m"
  shows "fst (m (snd (m w))) = fst (m w)" "files (snd (m (snd (m w)))) = files (snd (m w))"
proof -
  have "on_tree m (files (snd (m w))) = on_tree m (files w)"
    using assms(2) tree_onlyD(2) [OF assms(1), of w] by (simp add: reruns_def)
  with tree_onlyD [OF assms(1), of "snd (m w)"] tree_onlyD [OF assms(1), of w]
  show "fst (m (snd (m w))) = fst (m w)" "files (snd (m (snd (m w)))) = files (snd (m w))"
    by simp_all
qed

text \<open>
  Claim C8. Run again in the world the first run left, with the same \<^verbatim>\<open>INIT_CWD\<close>
  and the same \<^verbatim>\<open>JSON.parse\<close> (the manifest and \<^verbatim>\<open>README.md\<close> are unchanged by
  the first run), either script ends as the first run ended and leaves the file tree exactly
  as the first run left it. This holds after every first run, successful or not.
\<close>

theorem second_run_identical:
  "fst (setupDoc JSON_parse INIT_CWD (snd (setupDoc JSON_parse INIT_CWD w))) =
     fst (setupDoc JSON_parse INIT_CWD w) \<and>
   files (snd (setupDoc JSON_parse INIT_CWD (snd (setupDoc JSON_parse INIT_CWD w)))) =
     files (snd (setupDoc JSON_parse INIT_CWD w)) \<and>
   fst (setupDoc_part000 JSON_parse INIT_CWD (snd (setupDoc_part000 JSON_parse INIT_CWD w))) =
     fst (setupDoc_part000 JSON_parse INIT_CWD w) \<and>
   files (snd (setupDoc_part000 JSON_parse INIT_CWD (snd (setupDoc_part000 JSON_parse INIT_CWD w)))) =
     files (snd (setupDoc_part000 JSON_parse INIT_CWD w))"
  using second_run [OF setupDoc_again, of JSON_parse INIT_CWD w]
    second_run [OF setupDoc_part000_again, of JSON_parse INIT_CWD w]
  by simp

theorem second_run_identical_witness:
  "fst (setupDoc_part000 demo_parse (Some [''proj'', ''test-app'']) (world_of nested_tree)) = Inr () \<and>
   fst (setupDoc_part000 demo_parse (Some [''proj'', ''test-app''])
     (snd (setupDoc_part000 demo_parse (Some [''proj'', ''test-app'']) (world_of nested_tree)))) =
     Inr () \<and>
   files (snd (setupDoc_part000 demo_parse (Some [''proj'', ''test-app''])
     (snd (setupDoc_part000 demo_parse (Some [''proj'', ''test-app'']) (world_of nested_tree))))) =
     files (snd (setupDoc_part000 demo_parse (Some [''proj'', ''test-app'']) (world_of nested_tree))) \<and>
   files (snd (setupDoc demo_parse (Some [''proj'', ''test-app''])
     (snd (setupDoc demo_parse (Some [''proj'', ''test-app'']) (world_of demo_tree))))) =
     files (snd (setupDoc demo_parse (Some [''proj'', ''test-app'']) (world_of demo_tree)))"
proof -
  have first:
    "fst (setupDoc_part000 demo_parse (Some [''proj'', ''test-app'']) (world_of nested_tree)) = Inr ()"
    by code_simp
  from first
    second_run_identical [of demo_parse "Some [''proj'', ''test-app'']" "world_of nested_tree"]
    second_run_identical [of demo_parse "Some [''proj'', ''test-app'']" "world_of demo_tree"]
  show ?thesis
    by simp
qed

section \<open>Two manifests\<close>

subsection \<open>Trees of the same shape\<close>

lemma kind_simps [simp]:
  "kind None = None" "kind (Some IsDir) = Some True" "kind (Some (IsFile c)) = Some False"
  by (simp_all add: kind_def)

lemma kind_None: "kind a = kind b \<Longrightarrow> (a = None) = (b = None)"
  by (cases a; cases b) (simp_all add: kind_def)

lemma same_shape_step:
  assumes "\<And>q. prefix q (x # xs) \<Longrightarrow> kind (stat q t1) = kind (stat q t2)"
  shows "(\<exists>c1 c2. t1 = File c1 \<and> t2 = File c2) \<or>
    (\<exists>es1 es2. t1 = Dir es1 \<and> t2 = Dir es2 \<and>
       (map_of es1 x = None \<and> map_of es2 x = None \<or>
        (\<exists>m1 m2. map_of es1 x = Some m1 \<and> map_of es2 x = Some m2 \<and>
           (\<forall>q. prefix q xs \<longrightarrow> kind (stat q m1) = kind (stat q m2)))))"
proof -
  from assms [of "[]"] have top: "kind (stat [] t1) = kind (stat [] t2)"
    by simp
  show ?thesis
  proof (cases t1)
    case (File c1)
    with top show ?thesis
      by (cases t2) (simp_all add: stat_simps)
  next
    case (Dir es1)
    with top obtain es2 where t2: "t2 = Dir es2"
      by (cases t2) (simp_all add: stat_simps)
    from assms [of "[x]"] have one: "kind (stat [x] t1) = kind (stat [x] t2)"
      by simp
    show ?thesis
    proof (cases "map_of es1 x")
      case None
      with one Dir t2 have "map_of es2 x = None"
        by (cases "map_of es2 x") (simp_all add: stat_simps split: node.splits)
      with None Dir t2 show ?thesis
        by simp
    next
      case (Some m1)
      with one Dir t2 obtain m2 where m2: "map_of es2 x = Some m2"
        by (cases "map_of es2 x") (simp_all add: stat_simps split: node.splits)
      have "kind (stat q m1) = kind (stat q m2)" if "prefix q xs" for q
        using assms [of "x # q"] that by (simp add: Dir t2 Some m2 stat_simps)
      with Some m2 Dir t2 show ?thesis
        by simp
    qed
  qed
qed

lemma node_at_same_shape:
  assumes "\<And>q. prefix q p \<Longrightarrow> kind (stat q t1) = kind (stat q t2)"
  shows "(node_at p t1 = Inl e) = (node_at p t2 = Inl e)"
  using assms
proof (induction p arbitrary: t1 t2)
  case Nil
  show ?case by simp
next
  case (Cons x xs)
  have "(\<exists>c1 c2. t1 = File c1 \<and> t2 = File c2) \<or>
    (\<exists>es1 es2. t1 = Dir es1 \<and> t2 = Dir es2 \<and>
       (map_of es1 x = None \<and> map_of es2 x = None \<or>
        (\<exists>m1 m2. map_of es1 x = Some m1 \<and> map_of es2 x = Some m2 \<and>
           (\<forall>q. prefix q xs \<longrightarrow> kind (stat q m1) = kind (stat q m2)))))"
    by (rule same_shape_step) (rule Cons.prems)
  then show ?case
  proof (elim disjE exE conjE)
    fix m1 m2 es1 es2
    assume *: "t1 = Dir es1" "t2 = Dir es2" "map_of es1 x = Some m1" "map_of es2 x = Some m2"
      and sub: "\<forall>q. prefix q xs \<longrightarrow> kind (stat q m1) = kind (stat q m2)"
    from Cons.IH [of m1 m2] sub * show ?thesis
      by simp
  qed simp_all
qed

lemma store_file_same_shape:
  assumes "\<And>q. prefix q p \<Longrightarrow> kind (stat q t1) = kind (stat q t2)"
  shows "(store_file p c t1 = Inl e) = (store_file p c t2 = Inl e)"
  using assms
proof (induction p arbitrary: t1 t2)
  case Nil
  from Nil [of "[]"] show ?case
    by (cases t1; cases t2) (simp_all add: stat_simps)
next
  case (Cons x xs)
  have "(\<exists>c1 c2. t1 = File c1 \<and> t2 = File c2) \<or>
    (\<exists>es1 es2. t1 = Dir es1 \<and> t2 = Dir es2 \<and>
       (map_of es1 x = None \<and> map_of es2 x = None \<or>
        (\<exists>m1 m2. map_of es1 x = Some m1 \<and> map_of es2 x = Some m2 \<and>
           (\<forall>q. prefix q xs \<longrightarrow> kind (stat q m1) = kind (stat q m2)))))"
    by (rule same_shape_step) (rule Cons.prems)
  then show ?case
  proof (elim disjE exE conjE)
    fix m1 m2 es1 es2
    assume *: "t1 = Dir es1" "t2 = Dir es2" "map_of es1 x = Some m1" "map_of es2 x = Some m2"
      and sub: "\<forall>q. prefix q xs \<longrightarrow> kind (stat q m1) = kind (stat q m2)"
    from Cons.IH [of m1 m2] sub * show ?thesis
      by (auto split: sum.splits)
  qed simp_all
qed

lemma make_dirs_same_shape:
  assumes "\<And>q. prefix q p \<Longrightarrow> kind (stat q t1) = kind (stat q t2)"
  shows "(make_dirs p t1 = Inl e) = (make_dirs p t2 = Inl e)"
  using assms
proof (induction p arbitrary: t1 t2)
  case Nil
  from Nil [of "[]"] show ?case
    by (cases t1; cases t2) (simp_all add: stat_simps)
next
  case (Cons x xs)
  have "(\<exists>c1 c2. t1 = File c1 \<and> t2 = File c2) \<or>
    (\<exists>es1 es2. t1 = Dir es1 \<and> t2 = Dir es2 \<and>
       (map_of es1 x = None \<and> map_of es2 x = None \<or>
        (\<exists>m1 m2. map_of es1 x = Some m1 \<and> map_of es2 x = Some m2 \<and>
           (\<forall>q. prefix q xs \<longrightarrow> kind (stat q m1) = kind (stat q m2)))))"
    by (rule same_shape_step) (rule Cons.prems)
  then show ?case
  proof (elim disjE exE conjE)
    fix m1 m2 es1 es2
    assume *: "t1 = Dir es1" "t2 = Dir es2" "map_of es1 x = Some m1" "map_of es2 x = Some m2"
      and sub: "\<forall>q. prefix q xs \<longrightarrow> kind (stat q m1) = kind (stat q m2)"
    from Cons.IH [of m1 m2] sub * show ?thesis
      by (auto split: sum.splits)
  qed (simp_all split: sum.splits)
qed

subsection \<open>Statements on two worlds\<close>

lemma alikeD:
  assumes "alike p w1 w2"
  shows "console w1 = console w2" "kind (stat q (files w1)) = kind (stat q (files w2))"
    "q \<noteq> p \<Longrightarrow> stat q (files w1) = stat q (files w2)"
  using assms by (simp_all add: alike_def)

lemma obliviousI:
  assumes "\<And>w1 w2. alike p w1 w2 \<Longrightarrow>
    fst (m w1) = fst (m w2) \<and> alike p (snd (m w1)) (snd (m w2))"
  shows "oblivious p m"
  unfolding oblivious_def using assms by blast

lemma obliviousD:
  assumes "oblivious p m" "alike p w1 w2"
  shows "fst (m w1) = fst (m w2)" "alike p (snd (m w1)) (snd (m w2))"
  using assms by (simp_all add: oblivious_def)

lemma oblivious_andThen:
  assumes "oblivious p m" "\<And>x. oblivious p (f x)"
  shows "oblivious p (andThen m f)"
proof (rule obliviousI)
  fix w1 w2 :: world
  assume a: "alike p w1 w2"
  obtain r1 u1 where m1: "m w1 = (r1, u1)" by (cases "m w1")
  obtain r2 u2 where m2: "m w2 = (r2, u2)" by (cases "m w2")
  from obliviousD [OF assms(1) a] m1 m2 have r: "r2 = r1" and u: "alike p u1 u2"
    by simp_all
  show "fst (andThen m f w1) = fst (andThen m f w2) \<and>
    alike p (snd (andThen m f w1)) (snd (andThen m f w2))"
  proof (cases r1)
    case (Inl e)
    with m1 m2 r u show ?thesis by (simp add: andThen_def)
  next
    case (Inr x)
    with m1 m2 r obliviousD [OF assms(2) [of x] u] show ?thesis
      by (simp add: andThen_def)
  qed
qed

lemma oblivious_exists:
  assumes "oblivious p a" "oblivious p b"
  shows "oblivious p (\<lambda>w. if \<not> existsSync g w then a w else b w)"
proof (rule obliviousI)
  fix w1 w2 :: world
  assume a: "alike p w1 w2"
  from kind_None [OF alikeD(2) [OF a, of g]] have "existsSync g w1 = existsSync g w2"
    by (simp add: existsSync_stat)
  with obliviousD [OF assms(1) a] obliviousD [OF assms(2) a]
  show "fst (if \<not> existsSync g w1 then a w1 else b w1) =
      fst (if \<not> existsSync g w2 then a w2 else b w2) \<and>
    alike p (snd (if \<not> existsSync g w1 then a w1 else b w1))
      (snd (if \<not> existsSync g w2 then a w2 else b w2))"
    by simp
qed

lemma oblivious_basic:
  "oblivious p (js_return x)" "oblivious p (js_throw e)" "oblivious p (js_eval r)"
  "oblivious p (console_log s)" "oblivious p (console_warn s)"
  by (rule obliviousI, simp add: js_return_def js_throw_def js_eval_def console_log_def
      console_warn_def alike_def split: sum.splits)+

lemma oblivious_writeFileSync: "oblivious p (writeFileSync g c)"
proof (rule obliviousI)
  fix w1 w2 :: world
  assume a: "alike p w1 w2"
  note same = store_file_same_shape [of g "files w1" "files w2" c, OF alikeD(2) [OF a]]
  show "fst (writeFileSync g c w1) = fst (writeFileSync g c w2) \<and>
    alike p (snd (writeFileSync g c w1)) (snd (writeFileSync g c w2))"
  proof (cases "store_file g c (files w1)")
    case (Inl e)
    with same [of e] a show ?thesis
      by (simp add: writeFileSync_def)
  next
    case (Inr t1)
    with same obtain t2 where t2: "store_file g c (files w2) = Inr t2"
      by (cases "store_file g c (files w2)") auto
    from stat_store_file [OF Inr] stat_store_file [OF t2] a
    have "alike p (w1\<lparr>files := t1\<rparr>) (w2\<lparr>files := t2\<rparr>)"
      by (simp add: alike_def)
    with Inr t2 show ?thesis
      by (simp add: writeFileSync_def)
  qed
qed

lemma oblivious_mkdirSync: "oblivious p (mkdirSync_recursive d)"
proof (rule obliviousI)
  fix w1 w2 :: world
  assume a: "alike p w1 w2"
  note same = make_dirs_same_shape [of d "files w1" "files w2", OF alikeD(2) [OF a]]
  show "fst (mkdirSync_recursive d w1) = fst (mkdirSync_recursive d w2) \<and>
    alike p (snd (mkdirSync_recursive d w1)) (snd (mkdirSync_recursive d w2))"
  proof (cases "make_dirs d (files w1)")
    case (Inl e)
    with same [of e] a show ?thesis
      by (simp add: mkdirSync_recursive_def)
  next
    case (Inr t1)
    with same obtain t2 where t2: "make_dirs d (files w2) = Inr t2"
      by (cases "make_dirs d (files w2)") auto
    from stat_make_dirs [OF Inr] stat_make_dirs [OF t2] a
    have "alike p (w1\<lparr>files := t1\<rparr>) (w2\<lparr>files := t2\<rparr>)"
      by (simp add: alike_def)
    with Inr t2 show ?thesis
      by (simp add: mkdirSync_recursive_def)
  qed
qed

lemma oblivious_ensureDir: "oblivious p (ensureDir d)"
  unfolding ensureDir_def
  by (intro oblivious_exists oblivious_mkdirSync oblivious_basic)


lemma oblivious_readFileSync:
  assumes "g \<noteq> p"
  shows "oblivious p (readFileSync g)"
proof (rule obliviousI)
  fix w1 w2 :: world
  assume a: "alike p w1 w2"
  note err = node_at_same_shape [of g "files w1" "files w2", OF alikeD(2) [OF a]]
  from alikeD(3) [OF a assms] have same: "stat g (files w1) = stat g (files w2)" .
  show "fst (readFileSync g w1) = fst (readFileSync g w2) \<and>
    alike p (snd (readFileSync g w1)) (snd (readFileSync g w2))"
  proof (cases "stat g (files w1)")
    case None
    then obtain e where e: "node_at g (files w1) = Inl e"
      using node_at_none by blast
    with err [of e] a show ?thesis
      by (simp add: readFileSync_def)
  next
    case (Some x)
    with same have s1: "stat g (files w1) = Some x" and s2: "stat g (files w2) = Some x"
      by simp_all
    show ?thesis
    proof (cases x)
      case (IsFile c)
      with s1 s2 a show ?thesis
        by (simp add: readFileSync_file)
    next
      case IsDir
      with s1 s2 a show ?thesis
        by (simp add: readFileSync_dir)
    qed
  qed
qed

lemmas oblivious_intros = oblivious_andThen oblivious_exists oblivious_basic
  oblivious_writeFileSync oblivious_ensureDir

subsection \<open>The emitters on two worlds\<close>

lemma oblivious_updateRouter: "oblivious p (updateRouter root)"
  unfolding updateRouter_def Let_def by (intro oblivious_intros)

lemma oblivious_updateApplicationTemplate:
  "oblivious p (updateApplicationTemplate root addonName repoUrl)"
  unfolding updateApplicationTemplate_def Let_def by (intro oblivious_intros)

lemma oblivious_createDocsIndex:
  "path_join addonRoot [''README.md''] \<noteq> p \<Longrightarrow> oblivious p (createDocsIndex root addonRoot)"
  unfolding createDocsIndex_def Let_def by (intro oblivious_intros oblivious_readFileSync)

lemma oblivious_createIndexLayout: "oblivious p (createIndexLayout binding root)"
  unfolding createIndexLayout_def Let_def
  by (cases binding) (simp_all, intro oblivious_intros, intro oblivious_intros)

lemma oblivious_createDocsLayout: "oblivious p (createDocsLayout root)"
  unfolding createDocsLayout_def Let_def by (intro oblivious_intros)

lemma oblivious_emitters:
  "oblivious (addonRoot @ [''package.json''])
     (emitters binding appRoot layoutRoot addonRoot addonName repoUrl)"
  unfolding emitters_def
  by (intro oblivious_andThen oblivious_basic oblivious_updateRouter
      oblivious_updateApplicationTemplate oblivious_createDocsIndex oblivious_createIndexLayout
      oblivious_createDocsLayout) (simp add: path_join_literals)

subsection \<open>The whole script on two worlds\<close>

lemma log_then:
  "andThen (console_log s) (\<lambda>_. k) w = k (w\<lparr>console := console w @ [(Log, s)]\<rparr>)"
  by (simp add: andThen_def console_log_def)

lemma getParentPackageInfo_loads:
  assumes "stat (addonRoot @ [''package.json'']) (files w) = Some (IsFile c)"
    and "JSON_parse (utf8_text c) = Some v"
  shows "getParentPackageInfo JSON_parse addonRoot w = (Inr v, w)"
  using assms
  by (simp add: getParentPackageInfo_def Let_def path_join_literals existsSync_stat
      andThen_def readFileSync_file js_eval_def js_return_def)

lemma alike_manifests:
  assumes "console w1 = console w2"
    and "\<forall>q. q \<noteq> p \<longrightarrow> stat q (files w1) = stat q (files w2)"
    and "stat p (files w1) = Some (IsFile c1)" "stat p (files w2) = Some (IsFile c2)"
  shows "alike p w1 w2"
  unfolding alike_def
proof (intro conjI allI impI)
  show "console w1 = console w2" by (rule assms)
  show "kind (stat q (files w1)) = kind (stat q (files w2))" for q
    using assms by (cases "q = p") simp_all
  show "stat q (files w1) = stat q (files w2)" if "q \<noteq> p" for q
    using assms(2) that by simp
qed

lemma from_load_two:
  assumes a: "alike (addonRoot @ [''package.json'']) w1 w2"
    and c1: "stat (addonRoot @ [''package.json'']) (files w1) = Some (IsFile c1)"
    and c2: "stat (addonRoot @ [''package.json'']) (files w2) = Some (IsFile c2)"
    and v1: "JSON_parse (utf8_text c1) = Some v1" and v2: "JSON_parse (utf8_text c2) = Some v2"
    and name: "js_get v1 ''name'' = js_get v2 ''name''"
    and repo: "js_get v1 ''repository'' = js_get v2 ''repository''"
    and E: "\<And>n r. oblivious (addonRoot @ [''package.json'']) (E n r)"
    and L: "L = andThen (getParentPackageInfo JSON_parse addonRoot) (\<lambda>packageInfo.
           andThen (js_eval (js_get packageInfo ''name'')) (\<lambda>addonName.
           andThen (js_eval (js_get packageInfo ''repository'')) (\<lambda>repoUrl.
           andThen (js_eval (js_to_string addonName)) (\<lambda>nameText.
           andThen (console_log (s nameText)) (\<lambda>_. E addonName repoUrl)))))"
  shows "fst (L w1) = fst (L w2) \<and> alike (addonRoot @ [''package.json'']) (snd (L w1)) (snd (L w2))"
proof -
  define K where "K v =
      andThen (js_eval (js_get v ''name'')) (\<lambda>addonName.
      andThen (js_eval (js_get v ''repository'')) (\<lambda>repoUrl.
      andThen (js_eval (js_to_string addonName)) (\<lambda>nameText.
      andThen (console_log (s nameText)) (\<lambda>_. E addonName repoUrl))))" for v
  have 1: "L w1 = K v1 w1"
    unfolding L K_def
    using getParentPackageInfo_loads [where JSON_parse = JSON_parse, OF c1 v1]
    by (simp add: andThen_Inr [where m = "getParentPackageInfo JSON_parse addonRoot"])
  have 2: "L w2 = K v2 w2"
    unfolding L K_def
    using getParentPackageInfo_loads [where JSON_parse = JSON_parse, OF c2 v2]
    by (simp add: andThen_Inr [where m = "getParentPackageInfo JSON_parse addonRoot"])
  have same: "K v2 = K v1"
    by (simp add: K_def name repo)
  have "oblivious (addonRoot @ [''package.json'']) (K v1)"
    unfolding K_def by (intro oblivious_andThen oblivious_basic E)
  from obliviousD [OF this a] show ?thesis
    by (simp add: 1 2 same)
qed

lemma setupDoc_two:
  assumes "console w1 = console w2"
    and "\<forall>q. q \<noteq> path_resolve root [''..'', ''addon''] @ [''package.json''] \<longrightarrow>
      stat q (files w1) = stat q (files w2)"
    and "stat (path_resolve root [''..'', ''addon''] @ [''package.json'']) (files w1) = Some (IsFile c1)"
    and "stat (path_resolve root [''..'', ''addon''] @ [''package.json'']) (files w2) = Some (IsFile c2)"
    and "JSON_parse (utf8_text c1) = Some v1" "JSON_parse (utf8_text c2) = Some v2"
    and "js_get v1 ''name'' = js_get v2 ''name''"
    and "js_get v1 ''repository'' = js_get v2 ''repository''"
  shows "fst (setupDoc JSON_parse (Some root) w1) = fst (setupDoc JSON_parse (Some root) w2) \<and>
    alike (path_resolve root [''..'', ''addon''] @ [''package.json''])
      (snd (setupDoc JSON_parse (Some root) w1)) (snd (setupDoc JSON_parse (Some root) w2))"
proof -
  let ?a = "path_resolve root [''..'', ''addon'']"
  let ?s = "\<lambda>nameText. rocket @ '' Setting up ember-cli-addon-docs for '' @ nameText @ ''...'' @ [CHR 0x0A]"
  define L where "L = andThen (getParentPackageInfo JSON_parse ?a) (\<lambda>packageInfo.
           andThen (js_eval (js_get packageInfo ''name'')) (\<lambda>addonName.
           andThen (js_eval (js_get packageInfo ''repository'')) (\<lambda>repoUrl.
           andThen (js_eval (js_to_string addonName)) (\<lambda>nameText.
           andThen (console_log (?s nameText)) (\<lambda>_. emitters None root root ?a addonName repoUrl)))))"
  define u where "u w = w\<lparr>console := console w @ [(Log, ''addon root ------>  '' @ path_str ?a),
      (Log, ''test-app root ------>  '' @ path_str root)]\<rparr>" for w :: world
  have shape: "setupDoc JSON_parse (Some root) w = L (u w)" for w
    by (simp add: setupDoc_def emitters_def Let_def L_def u_def log_then)
  have "alike (?a @ [''package.json'']) (u w1) (u w2)"
    by (rule alike_manifests [where ?c1.0 = c1 and ?c2.0 = c2]) (simp_all add: u_def assms)
  then have "fst (L (u w1)) = fst (L (u w2)) \<and>
      alike (?a @ [''package.json'']) (snd (L (u w1))) (snd (L (u w2)))"
    by (rule from_load_two [where JSON_parse = JSON_parse and ?c1.0 = c1 and ?c2.0 = c2
          and ?v1.0 = v1 and ?v2.0 = v2])
      (simp_all add: u_def assms oblivious_emitters L_def)
  then show ?thesis
    by (simp add: shape)
qed

lemma setupDoc_part000_two:
  assumes "console w1 = console w2"
    and "\<forall>q. q \<noteq> path_resolve root [''..'', ''addon''] @ [''package.json''] \<longrightarrow>
      stat q (files w1) = stat q (files w2)"
    and "stat (path_resolve root [''..'', ''addon''] @ [''package.json'']) (files w1) = Some (IsFile c1)"
    and "stat (path_resolve root [''..'', ''addon''] @ [''package.json'']) (files w2) = Some (IsFile c2)"
    and "JSON_parse (utf8_text c1) = Some v1" "JSON_parse (utf8_text c2) = Some v2"
    and "js_get v1 ''name'' = js_get v2 ''name''"
    and "js_get v1 ''repository'' = js_get v2 ''repository''"
  shows "fst (setupDoc_part000 JSON_parse (Some root) w1) =
      fst (setupDoc_part000 JSON_parse (Some root) w2) \<and>
    alike (path_resolve root [''..'', ''addon''] @ [''package.json''])
      (snd (setupDoc_part000 JSON_parse (Some root) w1))
      (snd (setupDoc_part000 JSON_parse (Some root) w2))"
proof -
  let ?a = "path_resolve root [''..'', ''addon'']"
  let ?s = "\<lambda>nameText. rocket @ '' Setting up ember-cli-addon-docs for '' @ nameText @ ''...'' @ [CHR 0x0A]"
  define L where "L = andThen (getParentPackageInfo JSON_parse ?a) (\<lambda>packageInfo.
           andThen (js_eval (js_get packageInfo ''name'')) (\<lambda>addonName.
           andThen (js_eval (js_get packageInfo ''repository'')) (\<lambda>repoUrl.
           andThen (js_eval (js_to_string addonName)) (\<lambda>nameText.
           andThen (console_log (?s nameText))
             (\<lambda>_. emitters (Some testApp) (?a @ [''test-app'']) ?a ?a addonName repoUrl)))))"
  define u where "u w = w\<lparr>console := console w @ [(Log, ''ADDON ROOT ------>  '' @ path_str ?a)]\<rparr>"
    for w :: world
  have shape: "setupDoc_part000 JSON_parse (Some root) w = L (u w)" for w
    by (simp add: setupDoc_part000_def emitters_def Let_def L_def u_def log_then
        updateRouter_part000 updateApplicationTemplate_part000 createDocsIndex_part000
        createDocsLayout_part000)
  have "alike (?a @ [''package.json'']) (u w1) (u w2)"
    by (rule alike_manifests [where ?c1.0 = c1 and ?c2.0 = c2]) (simp_all add: u_def assms)
  then have "fst (L (u w1)) = fst (L (u w2)) \<and>
      alike (?a @ [''package.json'']) (snd (L (u w1))) (snd (L (u w2)))"
    by (rule from_load_two [where JSON_parse = JSON_parse and ?c1.0 = c1 and ?c2.0 = c2
          and ?v1.0 = v1 and ?v2.0 = v2])
      (simp_all add: u_def assms oblivious_emitters L_def)
  then show ?thesis
    by (simp add: shape)
qed


text \<open>
  Claim C10. Take two runs that start alike except for the text of \<^verbatim>\<open>package.json\<close>:
  the same console, the same \<^verbatim>\<open>INIT_CWD\<close>, and the same thing at every other path.
  If both manifests parse and the parsed values have the same \<^verbatim>\<open>name\<close> and the same
  \<^verbatim>\<open>repository\<close>, the two runs end alike: the same outcome, the same console, and
  the same thing at every path other than \<^verbatim>\<open>package.json\<close>, so
  \<^verbatim>\<open>application.hbs\<close> and every other emitted file hold the same text. No other key
  of the manifest reaches a file or the console. This holds for both files of the repository.
\<close>

theorem manifest_noninterference:
  assumes "console w1 = console w2"
    and "\<forall>q. q \<noteq> path_join (path_resolve root [''..'', ''addon'']) [''package.json''] \<longrightarrow>
      stat q (files w1) = stat q (files w2)"
    and "stat (path_join (path_resolve root [''..'', ''addon'']) [''package.json'']) (files w1) =
      Some (IsFile c1)"
    and "stat (path_join (path_resolve root [''..'', ''addon'']) [''package.json'']) (files w2) =
      Some (IsFile c2)"
    and "JSON_parse (utf8_text c1) = Some v1" "JSON_parse (utf8_text c2) = Some v2"
    and "js_get v1 ''name'' = js_get v2 ''name''"
    and "js_get v1 ''repository'' = js_get v2 ''repository''"
  shows
    "fst (setupDoc JSON_parse (Some root) w1) = fst (setupDoc JSON_parse (Some root) w2) \<and>
     console (snd (setupDoc JSON_parse (Some root) w1)) =
       console (snd (setupDoc JSON_parse (Some root) w2)) \<and>
     (\<forall>q. q \<noteq> path_join (path_resolve root [''..'', ''addon'']) [''package.json''] \<longrightarrow>
        stat q (files (snd (setupDoc JSON_parse (Some root) w1))) =
          stat q (files (snd (setupDoc JSON_parse (Some root) w2)))) \<and>
     fst (setupDoc_part000 JSON_parse (Some root) w1) =
       fst (setupDoc_part000 JSON_parse (Some root) w2) \<and>
     console (snd (setupDoc_part000 JSON_parse (Some root) w1)) =
       console (snd (setupDoc_part000 JSON_parse (Some root) w2)) \<and>
     (\<forall>q. q \<noteq> path_join (path_resolve root [''..'', ''addon'']) [''package.json''] \<longrightarrow>
        stat q (files (snd (setupDoc_part000 JSON_parse (Some root) w1))) =
          stat q (files (snd (setupDoc_part000 JSON_parse (Some root) w2))))"
proof -
  note hyps = assms [unfolded path_join_literals]
  from setupDoc_two [where JSON_parse = JSON_parse, OF hyps]
    setupDoc_part000_two [where JSON_parse = JSON_parse, OF hyps]
  show ?thesis
    unfolding path_join_literals by (simp add: alike_def)
qed

theorem manifest_noninterference_witness:
  "demo_manifest \<noteq> versioned_manifest \<and>
   fst (setupDoc_part000 versioned_parse (Some [''proj'', ''test-app'']) (world_of nested_tree)) =
     Inr () \<and>
   fst (setupDoc_part000 versioned_parse (Some [''proj'', ''test-app'']) (world_of versioned_tree)) =
     Inr () \<and>
   stat [''proj'', ''addon'', ''test-app'', ''app'', ''templates'', ''application.hbs'']
     (files (snd (setupDoc_part000 versioned_parse (Some [''proj'', ''test-app''])
        (world_of nested_tree)))) =
     Some (IsFile (applicationText ''Foo'' ''https://x'')) \<and>
   stat [''proj'', ''addon'', ''test-app'', ''app'', ''templates'', ''application.hbs'']
     (files (snd (setupDoc_part000 versioned_parse (Some [''proj'', ''test-app''])
        (world_of versioned_tree)))) =
     Some (IsFile (applicationText ''Foo'' ''https://x'')) \<and>
   console (snd (setupDoc_part000 versioned_parse (Some [''proj'', ''test-app''])
        (world_of versioned_tree))) =
     console (snd (setupDoc_part000 versioned_parse (Some [''proj'', ''test-app''])
        (world_of nested_tree)))"
proof -
  let ?pkg = "[''proj'', ''addon'', ''package.json'']"
  have differ: "demo_manifest \<noteq> versioned_manifest"
    by (simp add: demo_manifest_def versioned_manifest_def)
  have pkg: "path_join (path_resolve [''proj'', ''test-app''] [''..'', ''addon'']) [''package.json''] =
      ?pkg"
    by (simp add: path_resolve_addon path_join_literals)
  have "store_file ?pkg versioned_manifest nested_tree = Inr versioned_tree"
    by (simp add: nested_tree_def versioned_tree_def)
  from stat_store_file [OF this]
  have elsewhere: "\<forall>q. q \<noteq> ?pkg \<longrightarrow>
      stat q (files (world_of nested_tree)) = stat q (files (world_of versioned_tree))"
    by (simp add: world_of_def)
  have manifests:
    "stat ?pkg (files (world_of nested_tree)) = Some (IsFile demo_manifest)"
    "stat ?pkg (files (world_of versioned_tree)) = Some (IsFile versioned_manifest)"
    by (simp_all add: stat_def nested_tree_def versioned_tree_def world_of_def)
  have parsed:
    "versioned_parse (utf8_text demo_manifest) =
       Some (JObject [(''name'', JString ''Foo''), (''repository'', JString ''https://x'')])"
    "versioned_parse (utf8_text versioned_manifest) =
       Some (JObject [(''name'', JString ''Foo''), (''version'', JString ''2.0.0''),
                      (''repository'', JString ''https://x'')])"
    using differ
    by (simp_all add: versioned_parse_def demo_parse_def utf8_text_ascii)
      (simp_all add: demo_manifest_def versioned_manifest_def utf8_text_ascii)
  have first:
    "fst (setupDoc_part000 versioned_parse (Some [''proj'', ''test-app'']) (world_of nested_tree)) =
       Inr ()"
    "stat [''proj'', ''addon'', ''test-app'', ''app'', ''templates'', ''application.hbs'']
       (files (snd (setupDoc_part000 versioned_parse (Some [''proj'', ''test-app''])
          (world_of nested_tree)))) =
       Some (IsFile (applicationText ''Foo'' ''https://x''))"
    by code_simp+
  from differ first
    manifest_noninterference [of "world_of nested_tree" "world_of versioned_tree"
      "[''proj'', ''test-app'']" demo_manifest versioned_manifest versioned_parse,
      unfolded pkg, OF _ elsewhere manifests parsed]
  show ?thesis
    by (simp add: world_of_def js_get_def)
qed

end
